theory Spec2Isabelle
  imports
    Complex_Main
    "HOL-Library.AList"
    "HOL-Library.Char_ord"
    "HOL-Library.List_Lexorder"
begin

section \<open>The grade spreadsheet engine: a shallow embedding\<close>

text \<open>
  The development embeds the grade store (\<^verbatim>\<open>frontend/src/stores/grade.ts\<close>), the
  selection manager and the virtual-scroll composable (\<^verbatim>\<open>frontend/src/lib/api.ts\<close>)
  and the constants of \<^verbatim>\<open>types/grade\<close>.

  Conventions. A JavaScript \<^verbatim>\<open>number\<close> that holds a score, a weight or a pixel
  length is an exact rational (\<^typ>\<open>rat\<close>): NaN, the infinities and binary rounding
  are outside the model. Identifiers, indices and counts are \<^typ>\<open>int\<close>; a
  \<^verbatim>\<open>number\<close> holds the integers of magnitude below \<open>2^53\<close> exactly, and the
  statements that depend on how an identifier prints are made for those.
  \<^verbatim>\<open>number | null\<close> is \<^typ>\<open>rat option\<close>, with \<^term>\<open>None\<close> for
  \<^verbatim>\<open>null\<close>. A \<^verbatim>\<open>Record<string, T>\<close> is an association list in insertion
  order; assignment to a key is \<^const>\<open>AList.update\<close> (overwrite in place, else append),
  and every loop over \<^verbatim>\<open>Object.entries\<close> goes through \<open>Object_entries\<close>, which
  puts the keys that are array indices first.
  The user-visible message texts are Chinese string literals in the source; they are
  represented by the constructors of a datatype that keeps their parameters.
\<close>

subsection \<open>Virtual scrolling (\<^verbatim>\<open>useVirtualScroll\<close>)\<close>

record VirtualScrollOptions =
  itemHeight :: rat
  containerHeight :: rat
  overscan :: int
  enabled :: bool
  threshold :: int

text \<open>The defaults of the optional fields: \<^verbatim>\<open>overscan = 5, enabled = true, threshold = 100\<close>.\<close>

definition defaultOptions :: "rat \<Rightarrow> rat \<Rightarrow> VirtualScrollOptions" where
  "defaultOptions h v =
     \<lparr>itemHeight = h, containerHeight = v, overscan = 5, enabled = True, threshold = 100\<rparr>"

text \<open>
  \<^verbatim>\<open>items.length\<close> is the first argument, \<^verbatim>\<open>scrollTop.value\<close> the last.
  \<^verbatim>\<open>Math.floor\<close> and \<^verbatim>\<open>Math.ceil\<close> are \<^const>\<open>floor\<close> and \<^const>\<open>ceiling\<close>.
\<close>

definition startIndex :: "nat \<Rightarrow> VirtualScrollOptions \<Rightarrow> rat \<Rightarrow> int" where
  "startIndex n opts scrollTop =
     (if \<not> enabled opts \<or> int n < threshold opts then 0
      else let index = \<lfloor>scrollTop / itemHeight opts\<rfloor>
           in max 0 (index - overscan opts))"

definition endIndex :: "nat \<Rightarrow> VirtualScrollOptions \<Rightarrow> rat \<Rightarrow> int" where
  "endIndex n opts scrollTop =
     (if \<not> enabled opts \<or> int n < threshold opts then int n
      else let visibleCount = \<lceil>containerHeight opts / itemHeight opts\<rceil>;
               index = startIndex n opts scrollTop + visibleCount + overscan opts * 2
           in min (int n) index)"

text \<open>
  Row \<open>i\<close> occupies the vertical span \<open>[i * H, (i + 1) * H]\<close>; it is visible when
  that span meets the viewport \<open>[S, S + V]\<close>.
\<close>

definition row_visible :: "rat \<Rightarrow> rat \<Rightarrow> rat \<Rightarrow> int \<Rightarrow> bool" where
  "row_visible H V S i = (of_int i * H \<le> S + V \<and> S \<le> (of_int i + 1) * H)"

subsection \<open>JavaScript built-ins used by the store\<close>

text \<open>\<^verbatim>\<open>Array.prototype.findIndex\<close>: the index of the first match, or \<open>-1\<close>.\<close>

fun findIndex :: "('a \<Rightarrow> bool) \<Rightarrow> 'a list \<Rightarrow> int" where
  "findIndex P [] = -1"
| "findIndex P (x # xs) =
     (if P x then 0 else (let i = findIndex P xs in if i < 0 then -1 else i + 1))"

text \<open>
  \<^verbatim>\<open>xs.find(P)\<close> returns a reference, and the store then assigns to fields of the
  object found: \<open>update_first P f\<close> applies \<open>f\<close> to the first element that satisfies
  \<open>P\<close> and leaves the list alone when there is none.
\<close>

fun update_first :: "('a \<Rightarrow> bool) \<Rightarrow> ('a \<Rightarrow> 'a) \<Rightarrow> 'a list \<Rightarrow> 'a list" where
  "update_first P f [] = []"
| "update_first P f (x # xs) = (if P x then f x # xs else x # update_first P f xs)"

text \<open>\<^verbatim>\<open>xs.slice(0, e)\<close>: a negative end counts from the end of the array.\<close>

definition slice0 :: "'a list \<Rightarrow> int \<Rightarrow> 'a list" where
  "slice0 xs e = (if e < 0 then take (nat (int (length xs) + e)) xs else take (nat e) xs)"

text \<open>
  Decimal digits of a natural number; \<open>digit_char\<close> is only ever applied to a
  digit below ten. \<open>show_int\<close> is \<^verbatim>\<open>String(i)\<close> for an integer \<open>i\<close>.
\<close>

definition digit_char :: "nat \<Rightarrow> char" where
  "digit_char d = ''0123456789'' ! d"

fun digits10 :: "nat \<Rightarrow> string" where
  "digits10 n =
     (if n < 10 then [digit_char n]
      else digits10 (n div 10) @ [digit_char (n mod 10)])"

text \<open>
  From \<open>10^21\<close> on a number prints in exponent notation: the digits without their
  trailing zeros, a point after the first digit when more follow, and the exponent.
  An integer below \<open>2^53\<close> prints digit by digit. Of the integers above, a
  \<^verbatim>\<open>number\<close> holds only some, and prints the shortest digits that read back as the
  same number; \<open>show_nat\<close> prints the digits of the integer itself, which is the same
  text for an integer of at most 15 significant digits (such as \<open>10^21\<close>, printed
  \<^verbatim>\<open>1e+21\<close>).
\<close>

definition show_exp :: "nat \<Rightarrow> string" where
  "show_exp n =
     (let ds = digits10 n;
          sig = rev (dropWhile (\<lambda>c. c = CHR ''0'') (rev ds));
          e = digits10 (length ds - 1)
      in (case sig of
            [] \<Rightarrow> []
          | d # rest \<Rightarrow> d # (if rest = [] then [] else CHR ''.'' # rest) @ ''e+'' @ e))"

definition show_nat :: "nat \<Rightarrow> string" where
  "show_nat n = (if n < 10 ^ 21 then digits10 n else show_exp n)"

definition show_int :: "int \<Rightarrow> string" where
  "show_int i = (if i < 0 then CHR ''-'' # show_nat (nat (- i)) else show_nat (nat i))"

text \<open>The template literal \<^verbatim>\<open>`${rowId}-${columnId}`\<close> that keys every value record.\<close>

definition key_of :: "int \<Rightarrow> string \<Rightarrow> string" where
  "key_of rowId columnId = show_int rowId @ CHR ''-'' # columnId"

text \<open>\<^verbatim>\<open>key.split('-')\<close>: the pieces between the hyphens, at least one piece.\<close>

fun split_dash :: "string \<Rightarrow> string list" where
  "split_dash [] = [[]]"
| "split_dash (c # cs) =
     (if c = CHR ''-'' then [] # split_dash cs
      else (case split_dash cs of [] \<Rightarrow> [[c]] | p # ps \<Rightarrow> (c # p) # ps))"

text \<open>
  The destructuring \<^verbatim>\<open>const [rowId, columnId] = key.split('-')\<close> keeps the first two
  pieces. A key without a hyphen leaves \<^verbatim>\<open>columnId\<close> undefined; used as a property
  name that is the text \<^verbatim>\<open>undefined\<close>, which is what the model returns.
\<close>

definition key_parts :: "string \<Rightarrow> string \<times> string" where
  "key_parts key =
     (case split_dash key of
        a # b # _ \<Rightarrow> (a, b)
      | [a] \<Rightarrow> (a, ''undefined'')
      | [] \<Rightarrow> ([], ''undefined''))"

definition is_digit :: "char \<Rightarrow> bool" where
  "is_digit c = (c \<in> set ''0123456789'')"

definition digit_val :: "char \<Rightarrow> nat" where
  "digit_val c = nat (findIndex (\<lambda>d. d = c) ''0123456789'')"

text \<open>
  \<^verbatim>\<open>parseInt(s)\<close>: an optional sign and the longest prefix of decimal digits;
  \<^term>\<open>None\<close> is NaN (no digit). Leading white space and the \<^verbatim>\<open>0x\<close> prefix, which
  no key built by \<^const>\<open>key_of\<close> has, are not modelled.
\<close>

definition parseInt :: "string \<Rightarrow> int option" where
  "parseInt s =
     (let (neg, t) =
            (case s of
               [] \<Rightarrow> (False, s)
             | c # r \<Rightarrow> if c = CHR ''-'' then (True, r)
                        else if c = CHR ''+'' then (False, r) else (False, s));
          ds = takeWhile is_digit t;
          n = int (foldl (\<lambda>a c. 10 * a + digit_val c) 0 ds)
      in if ds = [] then None else Some (if neg then - n else n))"

text \<open>
  \<^verbatim>\<open>Object.entries(r)\<close> enumerates the keys that are array indices (the canonical
  decimal text of an integer below \<open>2^32 - 1\<close>) first, in ascending numeric order,
  and then all other keys in insertion order.
\<close>

definition array_index :: "string \<Rightarrow> nat option" where
  "array_index k =
     (let n = foldl (\<lambda>a c. 10 * a + digit_val c) 0 k
      in if k \<noteq> [] \<and> list_all is_digit k \<and> (k = ''0'' \<or> hd k \<noteq> CHR ''0'')
            \<and> n < 2 ^ 32 - 1
         then Some n else None)"

definition index_value :: "string \<Rightarrow> nat" where
  "index_value k = (case array_index k of None \<Rightarrow> 0 | Some n \<Rightarrow> n)"

definition Object_entries :: "(string \<times> 'a) list \<Rightarrow> (string \<times> 'a) list" where
  "Object_entries r =
     sort_key (\<lambda>e. index_value (fst e)) (filter (\<lambda>e. array_index (fst e) \<noteq> None) r)
     @ filter (\<lambda>e. array_index (fst e) = None) r"

text \<open>
  \<^verbatim>\<open>x.toString()\<close> for a finite number: the integer part, then the fraction digits
  without trailing zeros. The fraction digits are produced by long division, cut after
  24 digits for a value whose expansion does not end. Exponent notation (above
  \<open>10^21\<close> and below \<open>10^-6\<close>) is not modelled.
\<close>

fun frac_digits :: "nat \<Rightarrow> rat \<Rightarrow> string" where
  "frac_digits 0 r = []"
| "frac_digits (Suc fuel) r =
     (if r = 0 then []
      else (let d = nat \<lfloor>r * 10\<rfloor>
            in digit_char d # frac_digits fuel (r * 10 - of_nat d)))"

definition toString_abs :: "rat \<Rightarrow> string" where
  "toString_abs x =
     (let ip = nat \<lfloor>x\<rfloor>; fd = frac_digits 24 (x - of_nat ip)
      in digits10 ip @ (if fd = [] then [] else CHR ''.'' # fd))"

definition toString :: "rat \<Rightarrow> string" where
  "toString x = (if x < 0 then CHR ''-'' # toString_abs (- x) else toString_abs x)"

text \<open>
  \<^verbatim>\<open>x.toFixed(f)\<close>: the nearest integer \<open>n\<close> to \<open>|x| * 10^f\<close> (the larger one on
  a tie), printed with exactly \<open>f\<close> fraction digits, padded with zeros on the left;
  \<^verbatim>\<open>toString\<close> from \<open>10^21\<close> on.
\<close>

definition toFixed :: "nat \<Rightarrow> rat \<Rightarrow> string" where
  "toFixed f x =
     (if 10 ^ 21 \<le> \<bar>x\<bar> then toString x
      else (let n = nat \<lfloor>\<bar>x\<bar> * 10 ^ f + 1 / 2\<rfloor>;
                m = digits10 n;
                m' = (if length m \<le> f then replicate (f + 1 - length m) CHR ''0'' @ m else m);
                k = length m';
                body = (if f = 0 then m' else take (k - f) m' @ CHR ''.'' # drop (k - f) m')
            in if x < 0 then CHR ''-'' # body else body))"

subsection \<open>The data model (\<^verbatim>\<open>types/grade\<close>)\<close>

text \<open>
  Fields that no operation below reads or writes (titles, student names, categories,
  time stamps, entry ids) are left out. The fields \<^verbatim>\<open>id\<close> of a column and of a row
  are \<open>col_id\<close> and \<open>row_id\<close>, and \<^verbatim>\<open>type\<close> of a selection is \<open>sel_type\<close>.
\<close>

type_synonym cell_value = "rat option"

type_synonym value_record = "(string \<times> cell_value) list"

record GradeColumn =
  col_id :: string
  maxScore :: rat
  weight :: rat
  isRequired :: bool

record StudentGradeRow =
  row_id :: int
  grades :: value_record
  totalScore :: rat
  averageScore :: rat
  rank :: int
  isModified :: bool
  hasErrors :: bool

record GradeValidationRule =
  rule_min :: rat
  rule_max :: rat
  required :: bool
  allowDecimals :: bool
  decimalPlaces :: "nat option"

text \<open>
  The store names this constant in an \<^verbatim>\<open>import type\<close> clause and then reads it as a
  value; the model gives it the value that \<^verbatim>\<open>types/grade\<close> declares.
\<close>

definition DEFAULT_GRADE_VALIDATION_RULE :: GradeValidationRule where
  "DEFAULT_GRADE_VALIDATION_RULE =
     \<lparr>rule_min = 0, rule_max = 100, required = False, allowDecimals = True,
      decimalPlaces = Some 2\<rparr>"

text \<open>
  The texts returned by \<^verbatim>\<open>validateCell\<close>, in the order of the source: the column
  does not exist; the column is required; the score must lie between 0 and the given
  maximum; the column takes no decimals; at most the given number of decimal places.
\<close>

datatype message =
  ColumnMissing
  | RequiredField
  | OutOfRange rat
  | NoDecimals
  | TooManyDecimals nat

record GradeValidationError =
  rowId :: int
  columnId :: string
  message :: message

datatype selection_type = Cell | Row | Column | Range

record GradeSelection =
  startRow :: int
  endRow :: int
  startColumn :: string
  endColumn :: string
  sel_type :: selection_type

datatype operation_type = OpSet | OpAdd | OpMultiply | OpClear | OpFill

record GradeOperation =
  op_type :: operation_type
  op_value :: cell_value
  targetRange :: GradeSelection

record GradeHistoryEntry =
  operation :: GradeOperation
  previousValues :: value_record
  newValues :: value_record

text \<open>
  What \<^verbatim>\<open>state.error\<close> holds: the message of the server's response when it has a
  non-empty one, else the default text of the failing action.
\<close>

datatype error_text = ServerMessage string | SaveFailed | LoadFailed

text \<open>
  The reactive state of the store. \<open>courseInfo\<close> keeps the course id,
  \<open>autoSave_enabled\<close> is \<^verbatim>\<open>config.autoSave.enabled\<close>, and \<open>autoSaveTimer\<close> tells
  whether the module-level debounce timer is armed.
\<close>

record GradeSpreadsheetState =
  columns :: "GradeColumn list"
  rows :: "StudentGradeRow list"
  courseInfo :: "int option"
  saving :: bool
  error :: "error_text option"
  selectedCells :: "GradeSelection list"
  currentCell :: "(int \<times> string) option"
  validationErrors :: "GradeValidationError list"
  history :: "GradeHistoryEntry list"
  historyIndex :: int
  autoSave_enabled :: bool
  autoSaveTimer :: bool

definition initial_state :: GradeSpreadsheetState where
  "initial_state =
     \<lparr>columns = [], rows = [], courseInfo = None, saving = False, error = None,
      selectedCells = [], currentCell = None, validationErrors = [], history = [],
      historyIndex = -1, autoSave_enabled = True, autoSaveTimer = False\<rparr>"

subsection \<open>Getters\<close>

definition modifiedRows :: "GradeSpreadsheetState \<Rightarrow> int list" where
  "modifiedRows s = map row_id (filter (\<lambda>row. isModified row \<or> hasErrors row) (rows s))"

definition hasUnsavedChanges :: "GradeSpreadsheetState \<Rightarrow> bool" where
  "hasUnsavedChanges s = (length (modifiedRows s) > 0)"

definition canUndo :: "GradeSpreadsheetState \<Rightarrow> bool" where
  "canUndo s = (historyIndex s > 0)"

definition canRedo :: "GradeSpreadsheetState \<Rightarrow> bool" where
  "canRedo s = (historyIndex s < int (length (history s)) - 1)"

subsection \<open>Aggregates\<close>

text \<open>\<^verbatim>\<open>grades[c] ?? null\<close> and \<^verbatim>\<open>grades[c] ?? 0\<close>: a missing key reads as null.\<close>

definition grade_or_null :: "value_record \<Rightarrow> string \<Rightarrow> cell_value" where
  "grade_or_null g c = (case map_of g c of None \<Rightarrow> None | Some v \<Rightarrow> v)"

definition grade_or_zero :: "value_record \<Rightarrow> string \<Rightarrow> rat" where
  "grade_or_zero g c = (case grade_or_null g c of None \<Rightarrow> 0 | Some v \<Rightarrow> v)"

definition calculateTotalScore :: "value_record \<Rightarrow> GradeColumn list \<Rightarrow> rat" where
  "calculateTotalScore g cols =
     foldl (\<lambda>total column. total + grade_or_zero g (col_id column) * weight column / 100) 0 cols"

definition calculateAverageScore :: "value_record \<Rightarrow> GradeColumn list \<Rightarrow> rat" where
  "calculateAverageScore g cols =
     (let totalWeight = foldl (\<lambda>sum col. sum + weight col) 0 cols
      in if totalWeight = 0 then 0
         else calculateTotalScore g cols / totalWeight * 100)"

text \<open>
  \<^verbatim>\<open>calculateRanks\<close> sorts a copy of the rows by descending total. The comparator
  \<^verbatim>\<open>(b.totalScore || 0) - (a.totalScore || 0)\<close> is a total preorder and
  \<^verbatim>\<open>Array.prototype.sort\<close> is stable, so the result is the stable sort by the key
  \<open>- totalScore\<close>, which \<^const>\<open>sort_key\<close> computes. Each sorted row then gives its
  position plus one to the first row of the state with the same id.
\<close>

definition sortedRows :: "StudentGradeRow list \<Rightarrow> StudentGradeRow list" where
  "sortedRows rs = sort_key (\<lambda>r. - totalScore r) rs"

definition assign_rank :: "StudentGradeRow list \<Rightarrow> nat \<times> StudentGradeRow \<Rightarrow> StudentGradeRow list" where
  "assign_rank rs p =
     update_first (\<lambda>r. row_id r = row_id (snd p)) (\<lambda>r. r\<lparr>rank := int (fst p) + 1\<rparr>) rs"

definition calculateRanks :: "StudentGradeRow list \<Rightarrow> StudentGradeRow list" where
  "calculateRanks rs = foldl assign_rank rs (enumerate 0 (sortedRows rs))"

subsection \<open>Validation\<close>

definition validateCell ::
  "GradeSpreadsheetState \<Rightarrow> int \<Rightarrow> string \<Rightarrow> cell_value \<Rightarrow> message option" where
  "validateCell s rid cid val =
     (case find (\<lambda>c. col_id c = cid) (columns s) of
        None \<Rightarrow> Some ColumnMissing
      | Some column \<Rightarrow>
          if isRequired column \<and> val = None then Some RequiredField
          else (case val of
                  None \<Rightarrow> None
                | Some v \<Rightarrow>
                    if v < 0 \<or> v > maxScore column then Some (OutOfRange (maxScore column))
                    else if \<not> allowDecimals DEFAULT_GRADE_VALIDATION_RULE \<and> of_int \<lfloor>v\<rfloor> \<noteq> v
                      then Some NoDecimals
                    else (case decimalPlaces DEFAULT_GRADE_VALIDATION_RULE of
                            None \<Rightarrow> None
                          | Some d \<Rightarrow>
                              if d \<noteq> 0 \<and> toFixed d v \<noteq> toString v
                              then Some (TooManyDecimals d) else None)))"

definition validateAll_errors :: "GradeSpreadsheetState \<Rightarrow> GradeValidationError list" where
  "validateAll_errors s =
     concat (map (\<lambda>row. concat (map (\<lambda>column.
        (case validateCell s (row_id row) (col_id column)
                (grade_or_null (grades row) (col_id column)) of
           None \<Rightarrow> []
         | Some e \<Rightarrow> [\<lparr>rowId = row_id row, columnId = col_id column, message = e\<rparr>]))
        (columns s))) (rows s))"

definition validateAll :: "GradeSpreadsheetState \<Rightarrow> GradeSpreadsheetState" where
  "validateAll s = s\<lparr>validationErrors := validateAll_errors s\<rparr>"

subsection \<open>The history log\<close>

definition addToHistory ::
  "GradeOperation \<Rightarrow> value_record \<Rightarrow> value_record \<Rightarrow> GradeSpreadsheetState
   \<Rightarrow> GradeSpreadsheetState" where
  "addToHistory opn prev new s =
     (let entry = \<lparr>operation = opn, previousValues = prev, newValues = new\<rparr>;
          h = slice0 (history s) (historyIndex s + 1) @ [entry];
          i = historyIndex s + 1
      in if length h > 100 then s\<lparr>history := tl h, historyIndex := i - 1\<rparr>
         else s\<lparr>history := h, historyIndex := i\<rparr>)"

definition clearHistory :: "GradeSpreadsheetState \<Rightarrow> GradeSpreadsheetState" where
  "clearHistory s = s\<lparr>history := [], historyIndex := -1\<rparr>"

subsection \<open>Editing\<close>

text \<open>\<^verbatim>\<open>scheduleAutoSave\<close> clears a pending timer and arms a new one.\<close>

definition scheduleAutoSave :: "GradeSpreadsheetState \<Rightarrow> GradeSpreadsheetState" where
  "scheduleAutoSave s = s\<lparr>autoSaveTimer := True\<rparr>"

definition write_cell ::
  "GradeColumn list \<Rightarrow> string \<Rightarrow> cell_value \<Rightarrow> StudentGradeRow \<Rightarrow> StudentGradeRow" where
  "write_cell cols cid val row =
     (let g = AList.update cid val (grades row)
      in row\<lparr>grades := g, isModified := True,
              totalScore := calculateTotalScore g cols,
              averageScore := calculateAverageScore g cols\<rparr>)"

definition updateCell ::
  "int \<Rightarrow> string \<Rightarrow> cell_value \<Rightarrow> GradeSpreadsheetState \<Rightarrow> GradeSpreadsheetState" where
  "updateCell rid cid val s =
     (case find (\<lambda>r. row_id r = rid) (rows s) of
        None \<Rightarrow> s
      | Some row \<Rightarrow>
          (let originalValue = grade_or_null (grades row) cid;
               errs = (case validateCell s rid cid val of
                         Some m \<Rightarrow>
                           validationErrors s @ [\<lparr>rowId = rid, columnId = cid, message = m\<rparr>]
                       | None \<Rightarrow>
                           filter (\<lambda>e. \<not> (rowId e = rid \<and> columnId e = cid))
                             (validationErrors s));
               flag = (case validateCell s rid cid val of
                         Some m \<Rightarrow> True
                       | None \<Rightarrow> list_ex (\<lambda>e. rowId e = rid) errs);
               rs = update_first (\<lambda>r. row_id r = rid)
                      (\<lambda>r. write_cell (columns s) cid val (r\<lparr>hasErrors := flag\<rparr>)) (rows s);
               idx = findIndex (\<lambda>r. row_id r = rid) (rows s);
               opn = \<lparr>op_type = (if val \<noteq> None then OpSet else OpClear), op_value = val,
                      targetRange = \<lparr>startRow = idx, endRow = idx, startColumn = cid,
                                     endColumn = cid, sel_type = Cell\<rparr>\<rparr>;
               s1 = addToHistory opn [(key_of rid cid, originalValue)] [(key_of rid cid, val)]
                      (s\<lparr>rows := rs, validationErrors := errs\<rparr>)
           in if autoSave_enabled s1 then scheduleAutoSave s1 else s1))"

text \<open>
  \<^verbatim>\<open>batchUpdate\<close> replays the entries in order through \<^verbatim>\<open>updateCell\<close>. A row id
  that parses to NaN matches no row, so that call returns at once.
\<close>

definition batchUpdate_step ::
  "GradeSpreadsheetState \<Rightarrow> string \<times> cell_value \<Rightarrow> GradeSpreadsheetState" where
  "batchUpdate_step s kv =
     (let (rid, cid) = key_parts (fst kv)
      in case parseInt rid of None \<Rightarrow> s | Some r \<Rightarrow> updateCell r cid (snd kv) s)"

definition batchUpdate :: "value_record \<Rightarrow> GradeSpreadsheetState \<Rightarrow> GradeSpreadsheetState" where
  "batchUpdate updates s = foldl batchUpdate_step s (Object_entries updates)"

subsection \<open>Arithmetic on the selection\<close>

text \<open>
  The nested loops over a selection: row indices from \<open>startRow\<close> to \<open>endRow\<close>, column
  indices between the positions of the two column ids, kept when inside the grid.
\<close>

definition selection_cells :: "GradeSpreadsheetState \<Rightarrow> GradeSelection \<Rightarrow> (nat \<times> nat) list" where
  "selection_cells s sel =
     concat (map (\<lambda>row.
        concat (map (\<lambda>colIndex.
           if 0 \<le> row \<and> row < int (length (rows s))
              \<and> 0 \<le> colIndex \<and> colIndex < int (length (columns s))
           then [(nat row, nat colIndex)] else [])
         [findIndex (\<lambda>c. col_id c = startColumn sel) (columns s) ..
          findIndex (\<lambda>c. col_id c = endColumn sel) (columns s)]))
       [startRow sel .. endRow sel])"

definition selected_cells :: "GradeSpreadsheetState \<Rightarrow> (nat \<times> nat) list" where
  "selected_cells s = concat (map (selection_cells s) (selectedCells s))"

definition clamp_score :: "GradeColumn \<Rightarrow> rat \<Rightarrow> rat" where
  "clamp_score column x = min (max 0 x) (maxScore column)"

definition arith_step ::
  "(rat \<Rightarrow> rat) \<Rightarrow> GradeSpreadsheetState \<Rightarrow> value_record \<Rightarrow> nat \<times> nat \<Rightarrow> value_record" where
  "arith_step f s updates p =
     (let column = columns s ! snd p;
          rowData = rows s ! fst p;
          currentValue = grade_or_zero (grades rowData) (col_id column);
          newValue = clamp_score column (f currentValue)
      in AList.update (key_of (row_id rowData) (col_id column)) (Some newValue) updates)"

definition arith_updates :: "(rat \<Rightarrow> rat) \<Rightarrow> GradeSpreadsheetState \<Rightarrow> value_record" where
  "arith_updates f s = foldl (arith_step f s) [] (selected_cells s)"

definition addPoints :: "rat \<Rightarrow> GradeSpreadsheetState \<Rightarrow> GradeSpreadsheetState" where
  "addPoints points s = batchUpdate (arith_updates (\<lambda>v. v + points) s) s"

definition multiplyBy :: "rat \<Rightarrow> GradeSpreadsheetState \<Rightarrow> GradeSpreadsheetState" where
  "multiplyBy factor s = batchUpdate (arith_updates (\<lambda>v. v * factor) s) s"

subsection \<open>Undo and redo\<close>

text \<open>
  Both replay a value record over the rows. Reading \<^verbatim>\<open>history[i]\<close> outside the
  array gives \<^verbatim>\<open>undefined\<close>, and the property access on it throws a TypeError.
\<close>

datatype exn = TypeError

definition restore_value ::
  "GradeColumn list \<Rightarrow> StudentGradeRow list \<Rightarrow> string \<times> cell_value \<Rightarrow> StudentGradeRow list" where
  "restore_value cols rs kv =
     (let (rid, cid) = key_parts (fst kv)
      in case parseInt rid of
           None \<Rightarrow> rs
         | Some r \<Rightarrow> update_first (\<lambda>row. row_id row = r) (write_cell cols cid (snd kv)) rs)"

definition replay ::
  "value_record \<Rightarrow> GradeSpreadsheetState \<Rightarrow> GradeSpreadsheetState" where
  "replay vals s =
     s\<lparr>rows := calculateRanks
                (foldl (restore_value (columns s)) (rows s) (Object_entries vals))\<rparr>"

definition undo :: "GradeSpreadsheetState \<Rightarrow> exn + GradeSpreadsheetState" where
  "undo s =
     (if \<not> canUndo s then Inr s
      else (let i = historyIndex s - 1
            in if 0 \<le> i \<and> i < int (length (history s))
               then Inr (replay (previousValues (history s ! nat i)) (s\<lparr>historyIndex := i\<rparr>))
               else Inl TypeError))"

definition redo :: "GradeSpreadsheetState \<Rightarrow> exn + GradeSpreadsheetState" where
  "redo s =
     (if \<not> canRedo s then Inr s
      else (let i = historyIndex s + 1
            in if 0 \<le> i \<and> i < int (length (history s))
               then Inr (replay (newValues (history s ! nat i)) (s\<lparr>historyIndex := i\<rparr>))
               else Inl TypeError))"

subsection \<open>Saving\<close>

record GradeUpdate =
  student_id :: "int option"
  column_id :: string
  score :: cell_value

definition save_payload :: "value_record \<Rightarrow> GradeUpdate list" where
  "save_payload g =
     map (\<lambda>kv. let (rid, cid) = key_parts (fst kv)
               in \<lparr>student_id = parseInt rid, column_id = cid, score = snd kv\<rparr>)
       (Object_entries g)"

text \<open>
  The request to the data source either resolves or rejects with an error object, of
  which the store reads \<^verbatim>\<open>error.response?.data?.message\<close>.
\<close>

datatype api_error = ApiError "string option"

datatype api_outcome = Resolved | Rejected api_error

definition error_message :: "api_error \<Rightarrow> error_text \<Rightarrow> error_text" where
  "error_message e dflt =
     (case e of ApiError None \<Rightarrow> dflt
      | ApiError (Some t) \<Rightarrow> if t = [] then dflt else ServerMessage t)"

definition saved_value ::
  "GradeColumn list \<Rightarrow> StudentGradeRow list \<Rightarrow> string \<times> cell_value \<Rightarrow> StudentGradeRow list" where
  "saved_value cols rs kv =
     (let (rid, cid) = key_parts (fst kv)
      in case parseInt rid of
           None \<Rightarrow> rs
         | Some r \<Rightarrow>
             update_first (\<lambda>row. row_id row = r)
               (\<lambda>row. (write_cell cols cid (snd kv) row)\<lparr>isModified := False\<rparr>) rs)"

text \<open>
  \<^verbatim>\<open>saveGrades\<close> runs in two turns of the event loop. \<open>saveGrades_dispatch\<close> is
  the part before the \<^verbatim>\<open>await\<close>; \<open>saveGrades_settle\<close> is the continuation, run on
  the state as it is when the promise settles, and returns the thrown error
  (\<^term>\<open>Inl\<close>) or normally. \<open>saveGrades\<close> is the call with nothing in between.
  Without course info it returns before anything else.
\<close>

definition saveGrades_dispatch :: "GradeSpreadsheetState \<Rightarrow> GradeSpreadsheetState" where
  "saveGrades_dispatch s = s\<lparr>saving := True, error := None\<rparr>"

definition saveGrades_settle ::
  "value_record \<Rightarrow> api_outcome \<Rightarrow> GradeSpreadsheetState
   \<Rightarrow> (api_error + unit) \<times> GradeSpreadsheetState" where
  "saveGrades_settle g outcome s =
     (case outcome of
        Resolved \<Rightarrow>
          (Inr (),
           s\<lparr>rows := calculateRanks
                      (foldl (saved_value (columns s)) (rows s) (Object_entries g)),
             validationErrors :=
               filter (\<lambda>e. key_of (rowId e) (columnId e) \<notin> set (map fst g))
                 (validationErrors s),
             saving := False\<rparr>)
      | Rejected err \<Rightarrow>
          (Inl err, s\<lparr>error := Some (error_message err SaveFailed), saving := False\<rparr>))"

definition saveGrades ::
  "value_record \<Rightarrow> api_outcome \<Rightarrow> GradeSpreadsheetState
   \<Rightarrow> (api_error + unit) \<times> GradeSpreadsheetState" where
  "saveGrades g outcome s =
     (case courseInfo s of
        None \<Rightarrow> (Inr (), s)
      | Some course \<Rightarrow> saveGrades_settle g outcome (saveGrades_dispatch s))"

text \<open>
  The callback of the autosave timer: when there are unsaved changes it collects the
  entries of every row's grade record and saves them; a failure is only logged.
\<close>

definition autosave_updates :: "GradeSpreadsheetState \<Rightarrow> value_record" where
  "autosave_updates s =
     foldl (\<lambda>updates row.
        foldl (\<lambda>u cv. AList.update (key_of (row_id row) (fst cv)) (snd cv) u) updates
          (Object_entries (grades row)))
       [] (rows s)"

text \<open>
  The request that a call of \<^verbatim>\<open>saveGrades\<close> hands to the data source (none without
  course info), and the one that the timer callback causes (none without unsaved
  changes).
\<close>

definition saveGrades_request :: "value_record \<Rightarrow> GradeSpreadsheetState \<Rightarrow> GradeUpdate list option" where
  "saveGrades_request g s = (if courseInfo s = None then None else Some (save_payload g))"

definition autosave_request :: "GradeSpreadsheetState \<Rightarrow> GradeUpdate list option" where
  "autosave_request s =
     (if hasUnsavedChanges s then saveGrades_request (autosave_updates s) s else None)"

definition autosave_fire :: "api_outcome \<Rightarrow> GradeSpreadsheetState \<Rightarrow> GradeSpreadsheetState" where
  "autosave_fire outcome s =
     (let s0 = s\<lparr>autoSaveTimer := False\<rparr>
      in if hasUnsavedChanges s0 then snd (saveGrades (autosave_updates s0) outcome s0) else s0)"

subsection \<open>Loading\<close>

text \<open>
  The successful branch of \<^verbatim>\<open>loadGrades\<close>: row \<open>i\<close> takes \<^verbatim>\<open>grades[i] || {}\<close>,
  its aggregates are computed, ranks assigned and the history cleared.
\<close>

definition loaded_row :: "GradeColumn list \<Rightarrow> value_record list \<Rightarrow> nat \<times> int \<Rightarrow> StudentGradeRow" where
  "loaded_row cols gs p =
     (let g = (if fst p < length gs then gs ! fst p else [])
      in \<lparr>row_id = snd p, grades = g, totalScore = calculateTotalScore g cols,
          averageScore = calculateAverageScore g cols, rank = 0,
          isModified = False, hasErrors = False\<rparr>)"

definition loadGrades ::
  "int \<Rightarrow> GradeColumn list \<Rightarrow> int list \<Rightarrow> value_record list \<Rightarrow> GradeSpreadsheetState
   \<Rightarrow> GradeSpreadsheetState" where
  "loadGrades course cols students gs s =
     clearHistory
       (s\<lparr>error := None, courseInfo := Some course, columns := cols,
          rows := calculateRanks (map (loaded_row cols gs) (enumerate 0 students))\<rparr>)"

subsection \<open>Selection\<close>

definition selectCell ::
  "int \<Rightarrow> string \<Rightarrow> bool \<Rightarrow> GradeSpreadsheetState \<Rightarrow> GradeSpreadsheetState" where
  "selectCell rid cid ext s =
     (let rowIndex = findIndex (\<lambda>r. row_id r = rid) (rows s);
          colIndex = findIndex (\<lambda>c. col_id c = cid) (columns s)
      in if rowIndex = -1 \<or> colIndex = -1 then s
         else (let selection =
                     (if ext \<and> length (selectedCells s) > 0
                      then (let lastSelection = last (selectedCells s)
                            in \<lparr>startRow = min (startRow lastSelection) rowIndex,
                                endRow = max (endRow lastSelection) rowIndex,
                                startColumn = startColumn lastSelection,
                                endColumn = cid, sel_type = Range\<rparr>)
                      else \<lparr>startRow = rowIndex, endRow = rowIndex, startColumn = cid,
                            endColumn = cid, sel_type = Cell\<rparr>)
               in s\<lparr>selectedCells := [selection], currentCell := Some (rid, cid)\<rparr>))"

text \<open>The class \<^verbatim>\<open>SelectionManager\<close> of \<^verbatim>\<open>lib/api.ts\<close>, which keeps an anchor.\<close>

record SelectionManager =
  selections :: "GradeSelection list"
  anchorCell :: "(int \<times> string) option"

definition SelectionManager_init :: SelectionManager where
  "SelectionManager_init = \<lparr>selections = [], anchorCell = None\<rparr>"

definition SelectionManager_selectCell ::
  "int \<Rightarrow> string \<Rightarrow> bool \<Rightarrow> SelectionManager \<Rightarrow> SelectionManager" where
  "SelectionManager_selectCell rid cid ext m =
     (if \<not> ext
      then m\<lparr>selections := [\<lparr>startRow = rid, endRow = rid, startColumn = cid,
                              endColumn = cid, sel_type = Cell\<rparr>],
             anchorCell := Some (rid, cid)\<rparr>
      else (case anchorCell m of
              None \<Rightarrow> m
            | Some a \<Rightarrow>
                m\<lparr>selections := [\<lparr>startRow = min (fst a) rid, endRow = max (fst a) rid,
                                   startColumn = snd a, endColumn = cid, sel_type = Range\<rparr>]\<rparr>))"

text \<open>Column ids are compared as strings, by code unit.\<close>

definition isCellSelected :: "SelectionManager \<Rightarrow> int \<Rightarrow> string \<Rightarrow> bool" where
  "isCellSelected m rid cid =
     list_ex (\<lambda>selection.
        (let isRowInRange = (rid \<ge> startRow selection \<and> rid \<le> endRow selection);
             isColInRange = (sel_type selection = Row
                \<or> (cid \<ge> startColumn selection \<and> cid \<le> endColumn selection))
         in isRowInRange \<and> isColInRange)) (selections m)"

subsection \<open>Sessions and their invariants\<close>

text \<open>
  The invariant of the history log: at most 100 entries; the cursor is \<open>-1\<close> on an
  empty log and a valid index otherwise.
\<close>

definition history_ok :: "GradeSpreadsheetState \<Rightarrow> bool" where
  "history_ok s =
     (length (history s) \<le> 100
      \<and> (if history s = [] then historyIndex s = -1
         else 0 \<le> historyIndex s \<and> historyIndex s < int (length (history s))))"

definition cursor_at_end :: "GradeSpreadsheetState \<Rightarrow> bool" where
  "cursor_at_end s =
     (length (history s) \<le> 100 \<and> historyIndex s = int (length (history s)) - 1)"

text \<open>The operations a caller can invoke on the store, and a session as a run of them.\<close>

datatype action =
  UpdateCell int string cell_value
  | BatchUpdate value_record
  | AddPoints rat
  | MultiplyBy rat
  | SelectCell int string bool
  | ValidateAll
  | Undo
  | Redo
  | ClearHistory

fun session_step :: "action \<Rightarrow> GradeSpreadsheetState \<Rightarrow> exn + GradeSpreadsheetState" where
  "session_step (UpdateCell r c v) s = Inr (updateCell r c v s)"
| "session_step (BatchUpdate u) s = Inr (batchUpdate u s)"
| "session_step (AddPoints p) s = Inr (addPoints p s)"
| "session_step (MultiplyBy f) s = Inr (multiplyBy f s)"
| "session_step (SelectCell r c e) s = Inr (selectCell r c e s)"
| "session_step ValidateAll s = Inr (validateAll s)"
| "session_step Undo s = undo s"
| "session_step Redo s = redo s"
| "session_step ClearHistory s = Inr (clearHistory s)"

fun session_run :: "action list \<Rightarrow> GradeSpreadsheetState \<Rightarrow> exn + GradeSpreadsheetState" where
  "session_run [] s = Inr s"
| "session_run (a # as) s =
     (case session_step a s of Inl e \<Rightarrow> Inl e | Inr s' \<Rightarrow> session_run as s')"

text \<open>A sequence of single-cell edits \<open>(rowId, columnId, value)\<close>.\<close>

definition edit_all ::
  "(int \<times> string \<times> cell_value) list \<Rightarrow> GradeSpreadsheetState \<Rightarrow> GradeSpreadsheetState" where
  "edit_all edits s = foldl (\<lambda>s e. updateCell (fst e) (fst (snd e)) (snd (snd e)) s) s edits"

text \<open>A sequence of extending \<^verbatim>\<open>selectCell(row, column, true)\<close> calls on the manager.\<close>

definition extend_all :: "(int \<times> string) list \<Rightarrow> SelectionManager \<Rightarrow> SelectionManager" where
  "extend_all ts m = foldl (\<lambda>m t. SelectionManager_selectCell (fst t) (snd t) True m) m ts"

subsection \<open>Well-formed grids and derived notions\<close>

text \<open>
  The key \<^verbatim>\<open>`${rowId}-${columnId}`\<close> is split again at hyphens and the row id is
  parsed back with \<^verbatim>\<open>parseInt\<close>. That round trip is exact for row ids that are
  non-negative integers below \<open>10^21\<close> and column ids without a hyphen. \<open>grid_wf\<close>
  asks for row ids that are non-negative integers below \<open>2^53\<close> and column ids without
  a hyphen, both pairwise distinct; \<open>rows_wf\<close> asks the same of the rows and of the
  keys of their grade records (an object has each key once).
\<close>

definition grid_wf :: "GradeSpreadsheetState \<Rightarrow> bool" where
  "grid_wf s =
     (distinct (map row_id (rows s))
      \<and> list_all (\<lambda>r. 0 \<le> row_id r \<and> row_id r < 2 ^ 53) (rows s)
      \<and> distinct (map col_id (columns s))
      \<and> list_all (\<lambda>c. CHR ''-'' \<notin> set (col_id c)) (columns s))"

definition rows_wf :: "StudentGradeRow list \<Rightarrow> bool" where
  "rows_wf rs =
     (distinct (map row_id rs)
      \<and> list_all (\<lambda>r. 0 \<le> row_id r \<and> row_id r < 2 ^ 53
                      \<and> distinct (map fst (grades r))
                      \<and> list_all (\<lambda>cv. CHR ''-'' \<notin> set (fst cv)) (grades r)) rs)"

text \<open>The grade stored for a row id and a column id (\<^verbatim>\<open>null\<close> without such a row).\<close>

definition cell_at :: "StudentGradeRow list \<Rightarrow> int \<Rightarrow> string \<Rightarrow> cell_value" where
  "cell_at rs r c =
     (case find (\<lambda>x. row_id x = r) rs of None \<Rightarrow> None | Some row \<Rightarrow> grade_or_null (grades row) c)"

text \<open>A record entry whose key decodes to the ids it was built from.\<close>

definition entry_wf :: "string \<times> cell_value \<Rightarrow> bool" where
  "entry_wf e = (\<exists>r c. fst e = key_of r c \<and> 0 \<le> r \<and> r < 10 ^ 21 \<and> CHR ''-'' \<notin> set c)"

text \<open>
  The key and the value that \<open>arith_step\<close> writes for the cell at a row index and a
  column index.
\<close>

definition cell_key :: "GradeSpreadsheetState \<Rightarrow> nat \<times> nat \<Rightarrow> string" where
  "cell_key s p = key_of (row_id (rows s ! fst p)) (col_id (columns s ! snd p))"

definition arith_value :: "(rat \<Rightarrow> rat) \<Rightarrow> GradeSpreadsheetState \<Rightarrow> nat \<times> nat \<Rightarrow> cell_value" where
  "arith_value f s p =
     Some (clamp_score (columns s ! snd p)
       (f (grade_or_zero (grades (rows s ! fst p)) (col_id (columns s ! snd p)))))"

text \<open>The entries of one row's grade record, as enumerated, under their keys.\<close>

definition row_entries :: "StudentGradeRow \<Rightarrow> value_record" where
  "row_entries r =
     map (\<lambda>cv. (key_of (row_id r) (fst cv), snd cv)) (Object_entries (grades r))"

text \<open>
  Each row's \<open>hasErrors\<close> flag says whether an entry of the validation error list
  names the row.
\<close>

definition flags_ok :: "GradeSpreadsheetState \<Rightarrow> bool" where
  "flags_ok s =
     list_all (\<lambda>r. hasErrors r = list_ex (\<lambda>e. rowId e = row_id r) (validationErrors s))
       (rows s)"

definition session_inv :: "GradeSpreadsheetState \<Rightarrow> bool" where
  "session_inv s = (flags_ok s \<and> distinct (map row_id (rows s)) \<and> history_ok s)"

subsection \<open>Example sessions\<close>

text \<open>The fixture of the store's test suite: one required column, one student at 85.\<close>

definition ex_columns :: "GradeColumn list" where
  "ex_columns = [\<lparr>col_id = ''assignment1'', maxScore = 100, weight = 20, isRequired = True\<rparr>]"

definition ex_loaded :: GradeSpreadsheetState where
  "ex_loaded = loadGrades 1 ex_columns [1] [[(''assignment1'', Some 85)]] initial_state"

text \<open>The same fixture after 100 edits: a full history log.\<close>

definition ex_full :: GradeSpreadsheetState where
  "ex_full = edit_all (replicate 100 (1, ''assignment1'', Some 90)) ex_loaded"

text \<open>Two students with the same score.\<close>

definition ex_tied :: GradeSpreadsheetState where
  "ex_tied =
     loadGrades 1 ex_columns [1, 2]
       [[(''assignment1'', Some 85)], [(''assignment1'', Some 85)]] initial_state"

text \<open>Three rows and one column, for selections.\<close>

definition ex_three :: GradeSpreadsheetState where
  "ex_three =
     loadGrades 1 ex_columns [10, 20, 30]
       [[(''assignment1'', Some 85)], [(''assignment1'', Some 70)],
        [(''assignment1'', Some 60)]] initial_state"

text \<open>An operation value, and three unranked rows of which two have the same total.\<close>

definition ex_clear_op :: GradeOperation where
  "ex_clear_op =
     \<lparr>op_type = OpClear, op_value = None,
      targetRange = \<lparr>startRow = 0, endRow = 0, startColumn = ''assignment1'',
        endColumn = ''assignment1'', sel_type = Cell\<rparr>\<rparr>"

definition ex_rows :: "StudentGradeRow list" where
  "ex_rows =
     map (loaded_row ex_columns
            [[(''assignment1'', Some 85)], [(''assignment1'', Some 70)],
             [(''assignment1'', Some 85)]])
       (enumerate 0 [1, 2, 3])"

text \<open>
  A cell at 95 with that cell selected; a loaded grade above the maximum; the two tied
  students after an edit of the first one's cell.
\<close>

definition ex_95 :: GradeSpreadsheetState where
  "ex_95 =
     selectCell 1 ''assignment1'' False
       (loadGrades 1 ex_columns [1] [[(''assignment1'', Some 95)]] initial_state)"

definition ex_over :: GradeSpreadsheetState where
  "ex_over = loadGrades 1 ex_columns [1] [[(''assignment1'', Some 150)]] initial_state"

definition ex_dirty :: GradeSpreadsheetState where
  "ex_dirty = updateCell 1 ''assignment1'' (Some 90) ex_tied"

text \<open>
  Two columns whose ids are decimal numbers, loaded in the order 10, 9, and the first
  student's cell in column 10 edited.
\<close>

definition ex_indexed_columns :: "GradeColumn list" where
  "ex_indexed_columns =
     [\<lparr>col_id = ''10'', maxScore = 100, weight = 50, isRequired = True\<rparr>,
      \<lparr>col_id = ''9'', maxScore = 100, weight = 50, isRequired = True\<rparr>]"

definition ex_indexed :: GradeSpreadsheetState where
  "ex_indexed =
     updateCell 1 ''10'' (Some 90)
       (loadGrades 1 ex_indexed_columns [1, 2]
          [[(''10'', Some 85), (''9'', Some 70)], [(''10'', Some 60), (''9'', Some 50)]]
          initial_state)"

text \<open>A column whose id has a hyphen, its one cell at 95 and selected.\<close>

definition ex_hyphen_columns :: "GradeColumn list" where
  "ex_hyphen_columns =
     [\<lparr>col_id = ''final-exam'', maxScore = 100, weight = 20, isRequired = True\<rparr>]"

definition ex_hyphen :: GradeSpreadsheetState where
  "ex_hyphen =
     selectCell 1 ''final-exam'' False
       (loadGrades 1 ex_hyphen_columns [1] [[(''final-exam'', Some 95)]] initial_state)"

text \<open>Then an edit of the second student's cell: two edits of two different cells.\<close>

definition ex_two_edits :: GradeSpreadsheetState where
  "ex_two_edits = updateCell 2 ''assignment1'' (Some 95) ex_dirty"

subsection \<open>Windowing\<close>

lemma startIndex_bounds: "0 \<le> startIndex n opts S"
  by (simp add: startIndex_def Let_def)

lemma endIndex_bounds: "endIndex n opts S \<le> int n"
  by (simp add: endIndex_def Let_def)

lemma visible_row_lower:
  assumes H: "0 < H" and vis: "row_visible H V S i"
  shows "\<lfloor>S / H\<rfloor> - 1 \<le> i"
proof -
  from vis have "S \<le> (of_int i + 1) * H" by (simp add: row_visible_def)
  with H have "S / H \<le> of_int (i + 1)" by (simp add: pos_divide_le_eq)
  then have "\<lfloor>S / H\<rfloor> \<le> i + 1" by (simp add: floor_le_iff)
  then show ?thesis by simp
qed

lemma visible_row_upper:
  assumes H: "0 < H" and vis: "row_visible H V S i"
  shows "i \<le> \<lfloor>S / H\<rfloor> + \<lceil>V / H\<rceil>"
proof -
  from vis have "of_int i * H \<le> S + V" by (simp add: row_visible_def)
  with H have "of_int i \<le> (S + V) / H" by (simp add: pos_le_divide_eq)
  also have "\<dots> = S / H + V / H" by (simp add: add_divide_distrib)
  also have "\<dots> < (of_int \<lfloor>S / H\<rfloor> + 1) + of_int \<lceil>V / H\<rceil>"
    by (intro add_less_le_mono) (linarith, simp)
  finally have "(of_int i :: rat) < of_int (\<lfloor>S / H\<rfloor> + 1 + \<lceil>V / H\<rceil>)" by simp
  then have "i < \<lfloor>S / H\<rfloor> + 1 + \<lceil>V / H\<rceil>" by (simp only: of_int_less_iff)
  then show ?thesis by simp
qed

text \<open>
  C2 (as amended). With virtualisation active or not, a fixed row height \<open>H > 0\<close> and an
  overscan of at least one row, the window \<open>[startIndex, endIndex)\<close> contains every row
  \<open>0 \<le> i < R\<close> whose span meets the viewport \<open>[S, S + V]\<close>, the start is clamped to
  \<open>\<ge> 0\<close> and the end to the row count.
\<close>

theorem window_covers_visible_rows:
  assumes "0 < itemHeight opts" and "1 \<le> overscan opts"
    and "0 \<le> i" and "i < int R"
    and "row_visible (itemHeight opts) (containerHeight opts) S i"
  shows "startIndex R opts S \<le> i \<and> i < endIndex R opts S
         \<and> 0 \<le> startIndex R opts S \<and> endIndex R opts S \<le> int R"
proof -
  let ?f = "\<lfloor>S / itemHeight opts\<rfloor>"
  let ?c = "\<lceil>containerHeight opts / itemHeight opts\<rceil>"
  have lo: "?f - 1 \<le> i" using assms(1,5) by (rule visible_row_lower)
  have hi: "i \<le> ?f + ?c" using assms(1,5) by (rule visible_row_upper)
  have "startIndex R opts S \<le> i"
    using lo assms(2,3) by (simp add: startIndex_def Let_def)
  moreover have "i < endIndex R opts S"
    using hi assms(2,4) by (auto simp: endIndex_def startIndex_def Let_def max_def)
  ultimately show ?thesis
    by (simp add: startIndex_bounds endIndex_bounds)
qed

theorem window_covers_visible_rows_witness:
  "startIndex 1000 (defaultOptions 40 600) 4000 \<le> 100
   \<and> 100 < endIndex 1000 (defaultOptions 40 600) 4000
   \<and> 0 \<le> startIndex 1000 (defaultOptions 40 600) 4000
   \<and> endIndex 1000 (defaultOptions 40 600) 4000 \<le> 1000"
  using window_covers_visible_rows [of "defaultOptions 40 600" 100 1000 4000]
  by (simp add: defaultOptions_def row_visible_def)

text \<open>
  Without overscan the window misses a partially visible row: 100 rows of height 10, a
  viewport of height 10 scrolled to offset 5 (inside \<open>[0, 100 * 10 - 10]\<close>) shows the
  lower half of row 0 and the upper half of row 1, and the window is \<open>[0, 1)\<close>.
\<close>

theorem window_without_overscan_counterexample:
  "(0::rat) \<le> 5 \<and> (5::rat) \<le> 100 * 10 - 10
   \<and> row_visible 10 10 5 1
   \<and> startIndex 100 \<lparr>itemHeight = 10, containerHeight = 10, overscan = 0,
        enabled = True, threshold = 100\<rparr> 5 = 0
   \<and> endIndex 100 \<lparr>itemHeight = 10, containerHeight = 10, overscan = 0,
        enabled = True, threshold = 100\<rparr> 5 = 1"
proof -
  have "\<lfloor>(5::rat) / 10\<rfloor> = 0" by (simp add: floor_eq_iff)
  then show ?thesis
    by (simp add: endIndex_def startIndex_def Let_def row_visible_def)
qed

subsection \<open>The key encoding\<close>

declare digits10.simps [simp del]

lemma digit_char_is_digit: "d < 10 \<Longrightarrow> is_digit (digit_char d)"
  unfolding is_digit_def digit_char_def by (rule nth_mem) simp

lemma digit_val_table:
  "digit_val (digit_char 0) = 0" "digit_val (digit_char 1) = 1" "digit_val (digit_char 2) = 2"
  "digit_val (digit_char 3) = 3" "digit_val (digit_char 4) = 4" "digit_val (digit_char 5) = 5"
  "digit_val (digit_char 6) = 6" "digit_val (digit_char 7) = 7" "digit_val (digit_char 8) = 8"
  "digit_val (digit_char 9) = 9"
  by (simp_all add: digit_val_def digit_char_def)

lemma digit_val_digit_char: "d < 10 \<Longrightarrow> digit_val (digit_char d) = d"
proof -
  assume "d < 10"
  then have "d = 0 \<or> d = 1 \<or> d = 2 \<or> d = 3 \<or> d = 4 \<or> d = 5 \<or> d = 6 \<or> d = 7
      \<or> d = 8 \<or> d = 9"
    by arith
  then show ?thesis by (elim disjE) (simp_all only: digit_val_table)
qed

lemma is_digit_not_sign: "is_digit c \<Longrightarrow> c \<noteq> CHR ''-'' \<and> c \<noteq> CHR ''+''"
  by (auto simp: is_digit_def)

lemma digits10_all_digits: "\<forall>c \<in> set (digits10 n). is_digit c"
proof (induction n rule: digits10.induct)
  case (1 n)
  show ?case
  proof (cases "n < 10")
    case True
    then show ?thesis by (subst digits10.simps) (simp add: digit_char_is_digit)
  next
    case False
    with "1.IH" show ?thesis by (subst digits10.simps) (simp add: digit_char_is_digit)
  qed
qed

lemma digits10_not_Nil: "digits10 n \<noteq> []"
  by (subst digits10.simps) simp

lemma digits10_no_dash: "CHR ''-'' \<notin> set (digits10 n)"
  using digits10_all_digits [of n] is_digit_not_sign by blast

lemma digits10_value: "foldl (\<lambda>a c. 10 * a + digit_val c) 0 (digits10 n) = n"
proof (induction n rule: digits10.induct)
  case (1 n)
  show ?case
  proof (cases "n < 10")
    case True
    then show ?thesis by (subst digits10.simps) (simp add: digit_val_digit_char)
  next
    case False
    with "1.IH" show ?thesis by (subst digits10.simps) (simp add: digit_val_digit_char)
  qed
qed

lemma show_int_digits: "0 \<le> r \<Longrightarrow> r < 10 ^ 21 \<Longrightarrow> show_int r = digits10 (nat r)"
  by (simp add: show_int_def show_nat_def nat_less_iff)

lemma parseInt_show_int:
  assumes "0 \<le> r" and "r < 10 ^ 21"
  shows "parseInt (show_int r) = Some r"
proof -
  obtain c cs where d: "digits10 (nat r) = c # cs"
    using digits10_not_Nil [of "nat r"] by (cases "digits10 (nat r)") auto
  have "is_digit c" using digits10_all_digits [of "nat r"] d by simp
  then have c: "c \<noteq> CHR ''-''" "c \<noteq> CHR ''+''" using is_digit_not_sign by blast+
  have tw: "takeWhile is_digit (c # cs) = c # cs"
    using digits10_all_digits [of "nat r"] d by (simp add: takeWhile_eq_all_conv)
  have val: "foldl (\<lambda>a c. 10 * a + digit_val c) 0 (c # cs) = nat r"
    using digits10_value [of "nat r"] d by simp
  have "parseInt (c # cs) = Some (int (nat r))"
    unfolding parseInt_def
    by (simp add: c tw val Let_def del: foldl_Cons takeWhile.simps)
  then show ?thesis using assms by (simp add: show_int_digits d)
qed

lemma split_dash_not_Nil: "split_dash s \<noteq> []"
  by (induction s) (auto split: list.splits)

lemma split_dash_no_dash: "CHR ''-'' \<notin> set s \<Longrightarrow> split_dash s = [s]"
  by (induction s) auto

lemma split_dash_append:
  "CHR ''-'' \<notin> set xs \<Longrightarrow> split_dash (xs @ CHR ''-'' # ys) = xs # split_dash ys"
  by (induction xs) auto

lemma key_parts_key_of:
  assumes "0 \<le> r" and "r < 10 ^ 21" and "CHR ''-'' \<notin> set c"
  shows "key_parts (key_of r c) = (show_int r, c)"
proof -
  have "CHR ''-'' \<notin> set (show_int r)"
    using assms(1,2) by (simp add: show_int_digits digits10_no_dash)
  then show ?thesis
    using assms(3) by (simp add: key_parts_def key_of_def split_dash_append split_dash_no_dash)
qed

lemma key_of_inject:
  assumes "0 \<le> r" "r < 10 ^ 21" "CHR ''-'' \<notin> set c"
    and "0 \<le> r'" "r' < 10 ^ 21" "CHR ''-'' \<notin> set c'"
    and "key_of r c = key_of r' c'"
  shows "r = r' \<and> c = c'"
proof -
  from assms have "(show_int r, c) = (show_int r', c')"
    using key_parts_key_of [of r c] key_parts_key_of [of r' c'] by simp
  then have "parseInt (show_int r) = parseInt (show_int r')" and "c = c'" by simp_all
  then show ?thesis using assms(1,2,4,5) by (simp add: parseInt_show_int)
qed

lemma key_of_dash: "CHR ''-'' \<in> set (key_of r c)"
  by (simp add: key_of_def)

subsection \<open>Enumerating a record\<close>

lemma array_index_dash: "CHR ''-'' \<in> set k \<Longrightarrow> array_index k = None"
  using is_digit_not_sign by (auto simp: array_index_def Let_def list_all_iff)

lemma Object_entries_no_index:
  "\<forall>e \<in> set r. array_index (fst e) = None \<Longrightarrow> Object_entries r = r"
  by (simp add: Object_entries_def filter_empty_conv filter_id_conv)

lemma Object_entries_dash:
  "\<forall>e \<in> set r. CHR ''-'' \<in> set (fst e) \<Longrightarrow> Object_entries r = r"
  by (rule Object_entries_no_index) (simp add: array_index_dash)

lemma set_Object_entries [simp]: "set (Object_entries r) = set r"
  by (auto simp: Object_entries_def)

lemma distinct_Object_entries:
  assumes "distinct (map fst r)"
  shows "distinct (map fst (Object_entries r))"
proof -
  from assms have d: "distinct r" and i: "inj_on fst (set r)" by (simp_all add: distinct_map)
  from d have "distinct (Object_entries r)" by (auto simp: Object_entries_def)
  with i show ?thesis by (simp add: distinct_map)
qed

declare digits10.simps [simp]

subsection \<open>Evaluating the examples\<close>

lemma floor_rat_numeral_div [simp]:
  "\<lfloor>numeral a / numeral b :: rat\<rfloor> = numeral a div numeral b"
  using floor_divide_of_int_eq [of "numeral a" "numeral b", where ?'a = rat] by simp

lemma frac_digits_numeral [simp]:
  "frac_digits (numeral k) r =
     (if r = 0 then []
      else (let d = nat \<lfloor>r * 10\<rfloor>
            in digit_char d # frac_digits (pred_numeral k) (r * 10 - of_nat d)))"
  by (simp add: numeral_eq_Suc)

lemmas aggregate_defs =
  calculateTotalScore_def calculateAverageScore_def grade_or_zero_def grade_or_null_def

lemmas load_defs =
  loadGrades_def initial_state_def clearHistory_def calculateRanks_def sortedRows_def
  assign_rank_def loaded_row_def aggregate_defs

lemma ex_loaded_eval:
  "ex_loaded =
     \<lparr>columns = ex_columns,
      rows = [\<lparr>row_id = 1, grades = [(''assignment1'', Some 85)], totalScore = 17,
               averageScore = 85, rank = 1, isModified = False, hasErrors = False\<rparr>],
      courseInfo = Some 1, saving = False, error = None, selectedCells = [],
      currentCell = None, validationErrors = [], history = [], historyIndex = -1,
      autoSave_enabled = True, autoSaveTimer = False\<rparr>"
  by (simp add: ex_loaded_def load_defs ex_columns_def)

lemma ex_tied_rows:
  "rows ex_tied =
     [\<lparr>row_id = 1, grades = [(''assignment1'', Some 85)], totalScore = 17,
       averageScore = 85, rank = 1, isModified = False, hasErrors = False\<rparr>,
      \<lparr>row_id = 2, grades = [(''assignment1'', Some 85)], totalScore = 17,
       averageScore = 85, rank = 2, isModified = False, hasErrors = False\<rparr>]"
  by (simp add: ex_tied_def load_defs ex_columns_def)

lemma toFixed_100: "toFixed 2 100 = ''100.00''"
  by (simp add: toFixed_def Let_def digit_char_def)

lemma toString_100: "toString 100 = ''100''"
  by (simp add: toString_def toString_abs_def digit_char_def)

lemma toFixed_0: "toFixed 2 0 = ''0.00''"
  by (simp add: toFixed_def Let_def digit_char_def)

lemma toString_0: "toString 0 = ''0''"
  by (simp add: toString_def toString_abs_def digit_char_def)

lemma toFixed_90: "toFixed 2 90 = ''90.00''"
  by (simp add: toFixed_def Let_def digit_char_def)

lemma toString_90: "toString 90 = ''90''"
  by (simp add: toString_def toString_abs_def digit_char_def)

lemma validate_90: "validateCell ex_loaded 1 ''assignment1'' (Some 90) = Some (TooManyDecimals 2)"
  by (simp add: validateCell_def ex_loaded_eval ex_columns_def DEFAULT_GRADE_VALIDATION_RULE_def
      toFixed_90 toString_90)

lemma key_1_assignment1: "key_of 1 ''assignment1'' = ''1-assignment1''"
  by (simp add: key_of_def show_int_def show_nat_def digit_char_def)

lemma key_parts_1: "key_parts ''1-assignment1'' = (''1'', ''assignment1'')"
  by (simp add: key_parts_def)

lemma parseInt_1: "parseInt ''1'' = Some 1"
  by (simp add: parseInt_def is_digit_def digit_val_def)

lemma ex_edit_90:
  "updateCell 1 ''assignment1'' (Some 90) ex_loaded =
     \<lparr>columns = ex_columns,
      rows = [\<lparr>row_id = 1, grades = [(''assignment1'', Some 90)], totalScore = 18,
               averageScore = 90, rank = 1, isModified = True, hasErrors = True\<rparr>],
      courseInfo = Some 1, saving = False, error = None, selectedCells = [],
      currentCell = None,
      validationErrors = [\<lparr>rowId = 1, columnId = ''assignment1'', message = TooManyDecimals 2\<rparr>],
      history = [\<lparr>operation = \<lparr>op_type = OpSet, op_value = Some 90,
                   targetRange = \<lparr>startRow = 0, endRow = 0, startColumn = ''assignment1'',
                      endColumn = ''assignment1'', sel_type = Cell\<rparr>\<rparr>,
                  previousValues = [(''1-assignment1'', Some 85)],
                  newValues = [(''1-assignment1'', Some 90)]\<rparr>],
      historyIndex = 0, autoSave_enabled = True, autoSaveTimer = True\<rparr>"
  unfolding updateCell_def validate_90
  by (simp add: ex_loaded_eval key_1_assignment1 addToHistory_def slice0_def scheduleAutoSave_def
      write_cell_def aggregate_defs ex_columns_def)

lemma ex_three_eval:
  "ex_three =
     \<lparr>columns = ex_columns,
      rows = [\<lparr>row_id = 10, grades = [(''assignment1'', Some 85)], totalScore = 17,
               averageScore = 85, rank = 1, isModified = False, hasErrors = False\<rparr>,
              \<lparr>row_id = 20, grades = [(''assignment1'', Some 70)], totalScore = 14,
               averageScore = 70, rank = 2, isModified = False, hasErrors = False\<rparr>,
              \<lparr>row_id = 30, grades = [(''assignment1'', Some 60)], totalScore = 12,
               averageScore = 60, rank = 3, isModified = False, hasErrors = False\<rparr>],
      courseInfo = Some 1, saving = False, error = None, selectedCells = [],
      currentCell = None, validationErrors = [], history = [], historyIndex = -1,
      autoSave_enabled = True, autoSaveTimer = False\<rparr>"
  by (simp add: ex_three_def load_defs ex_columns_def)

lemma ex_rows_eval:
  "ex_rows =
     [\<lparr>row_id = 1, grades = [(''assignment1'', Some 85)], totalScore = 17,
       averageScore = 85, rank = 0, isModified = False, hasErrors = False\<rparr>,
      \<lparr>row_id = 2, grades = [(''assignment1'', Some 70)], totalScore = 14,
       averageScore = 70, rank = 0, isModified = False, hasErrors = False\<rparr>,
      \<lparr>row_id = 3, grades = [(''assignment1'', Some 85)], totalScore = 17,
       averageScore = 85, rank = 0, isModified = False, hasErrors = False\<rparr>]"
  by (simp add: ex_rows_def loaded_row_def aggregate_defs ex_columns_def)

subsection \<open>Validation at the bounds\<close>

text \<open>
  C3. On the fixture (column \<open>assignment1\<close>, \<open>maxScore = 100\<close>) \<^verbatim>\<open>validateCell\<close>
  rejects the values 100 and 0: the decimal-places check compares
  \<^verbatim>\<open>value.toFixed(2)\<close> (\<open>100.00\<close>) with \<^verbatim>\<open>value.toString()\<close> (\<open>100\<close>) and
  reports too many decimal places for every value that has fewer than two.
\<close>

theorem validateCell_rejects_bounds:
  "validateCell ex_loaded 1 ''assignment1'' (Some 100) = Some (TooManyDecimals 2)
   \<and> validateCell ex_loaded 1 ''assignment1'' (Some 0) = Some (TooManyDecimals 2)"
  by (simp add: validateCell_def ex_loaded_eval ex_columns_def DEFAULT_GRADE_VALIDATION_RULE_def
      toFixed_100 toString_100 toFixed_0 toString_0)

subsection \<open>The history log is bounded\<close>

lemma history_ok_cong:
  "history s' = history s \<Longrightarrow> historyIndex s' = historyIndex s \<Longrightarrow> history_ok s' = history_ok s"
  by (simp add: history_ok_def)

lemma addToHistory_history:
  assumes "history_ok s"
  shows "history (addToHistory opn prev new s) =
           (let h = take (nat (historyIndex s + 1)) (history s)
                      @ [\<lparr>operation = opn, previousValues = prev, newValues = new\<rparr>]
            in if length h > 100 then tl h else h)"
    and "historyIndex (addToHistory opn prev new s) =
           (if historyIndex s + 1 \<ge> 100 then 99 else historyIndex s + 1)"
  using assms
  by (auto simp: addToHistory_def history_ok_def slice0_def Let_def split: if_splits)

lemma history_ok_addToHistory:
  assumes "history_ok s"
  shows "history_ok (addToHistory opn prev new s)"
  using assms
  by (auto simp: addToHistory_def history_ok_def slice0_def Let_def split: if_splits)

lemma addToHistory_other [simp]:
  "rows (addToHistory opn prev new s) = rows s"
  "columns (addToHistory opn prev new s) = columns s"
  "validationErrors (addToHistory opn prev new s) = validationErrors s"
  "autoSave_enabled (addToHistory opn prev new s) = autoSave_enabled s"
  "courseInfo (addToHistory opn prev new s) = courseInfo s"
  "selectedCells (addToHistory opn prev new s) = selectedCells s"
  by (simp_all add: addToHistory_def Let_def)

lemma history_ok_updateCell:
  assumes "history_ok s"
  shows "history_ok (updateCell r c v s)"
proof (cases "find (\<lambda>x. row_id x = r) (rows s)")
  case None
  then show ?thesis using assms by (simp add: updateCell_def)
next
  case (Some row)
  have ok: "history_ok (s\<lparr>rows := rs, validationErrors := es\<rparr>)" for rs es
    using assms by (simp add: history_ok_def)
  show ?thesis
    using Some
    by (simp add: updateCell_def Let_def scheduleAutoSave_def history_ok_addToHistory [OF ok]
        history_ok_cong [of "_\<lparr>autoSaveTimer := True\<rparr>"])
qed


lemma history_ok_batchUpdate_step:
  "history_ok s \<Longrightarrow> history_ok (batchUpdate_step s kv)"
  by (simp add: batchUpdate_step_def history_ok_updateCell split: prod.splits option.splits)

lemma history_ok_batch_steps:
  "history_ok s \<Longrightarrow> history_ok (foldl batchUpdate_step s es)"
  by (induction es arbitrary: s) (simp_all add: history_ok_batchUpdate_step)

lemma history_ok_batchUpdate:
  "history_ok s \<Longrightarrow> history_ok (batchUpdate u s)"
  by (simp add: batchUpdate_def history_ok_batch_steps)

lemma history_ok_replay [simp]: "history_ok (replay vals s) = history_ok s"
  by (simp add: replay_def history_ok_def)

lemma undo_ok:
  assumes "history_ok s"
  shows "\<exists>s'. undo s = Inr s' \<and> history_ok s'"
proof (cases "canUndo s")
  case False
  then show ?thesis using assms by (simp add: undo_def)
next
  case True
  with assms have "0 \<le> historyIndex s - 1" "historyIndex s - 1 < int (length (history s))"
    by (auto simp: canUndo_def history_ok_def split: if_splits)
  moreover from this assms have "history_ok (s\<lparr>historyIndex := historyIndex s - 1\<rparr>)"
    by (auto simp: history_ok_def split: if_splits)
  ultimately show ?thesis using True by (simp add: undo_def Let_def)
qed

lemma redo_ok:
  assumes "history_ok s"
  shows "\<exists>s'. redo s = Inr s' \<and> history_ok s'"
proof (cases "canRedo s")
  case False
  then show ?thesis using assms by (simp add: redo_def)
next
  case True
  with assms have "0 \<le> historyIndex s + 1" "historyIndex s + 1 < int (length (history s))"
    by (auto simp: canRedo_def history_ok_def split: if_splits)
  moreover from this assms have "history_ok (s\<lparr>historyIndex := historyIndex s + 1\<rparr>)"
    by (auto simp: history_ok_def split: if_splits)
  ultimately show ?thesis using True by (simp add: redo_def Let_def)
qed

lemma history_ok_selectCell [simp]: "history_ok (selectCell r c e s) = history_ok s"
  by (simp add: selectCell_def Let_def history_ok_def)

lemma history_ok_validateAll [simp]: "history_ok (validateAll s) = history_ok s"
  by (simp add: validateAll_def history_ok_def)

lemma history_ok_clearHistory [simp]: "history_ok (clearHistory s)"
  by (simp add: clearHistory_def history_ok_def)

lemma session_step_ok:
  assumes "history_ok s"
  shows "\<exists>s'. session_step a s = Inr s' \<and> history_ok s'"
  using assms
  by (cases a)
     (simp_all add: history_ok_updateCell history_ok_batchUpdate addPoints_def multiplyBy_def
        undo_ok redo_ok)

lemma session_run_ok:
  "history_ok s \<Longrightarrow> \<exists>s'. session_run acts s = Inr s' \<and> history_ok s'"
proof (induction acts arbitrary: s)
  case Nil
  then show ?case by simp
next
  case (Cons a acts)
  from session_step_ok [OF Cons.prems, of a]
  obtain s1 where "session_step a s = Inr s1" "history_ok s1" by blast
  with Cons.IH [of s1] show ?case by simp
qed


lemma map_update_first:
  "(\<And>x. g (f x) = g x) \<Longrightarrow> map g (update_first P f xs) = map g xs"
  by (induction xs) simp_all

lemma length_update_first [simp]: "length (update_first P f xs) = length xs"
  by (induction xs) simp_all

lemma row_id_write_cell [simp]: "row_id (write_cell cols c v r) = row_id r"
  by (simp add: write_cell_def Let_def)

lemma updateCell_row_ids [simp]:
  "map row_id (rows (updateCell r c v s)) = map row_id (rows s)"
  by (simp add: updateCell_def Let_def scheduleAutoSave_def map_update_first
      split: option.splits)

lemma addToHistory_at_end:
  assumes "cursor_at_end s"
  shows "cursor_at_end (addToHistory opn prev new s)
         \<and> length (history (addToHistory opn prev new s)) = min (Suc (length (history s))) 100"
  using assms by (auto simp: cursor_at_end_def addToHistory_def slice0_def Let_def)

lemma updateCell_at_end:
  assumes "cursor_at_end s" and "r \<in> row_id ` set (rows s)"
  shows "cursor_at_end (updateCell r c v s)
         \<and> length (history (updateCell r c v s)) = min (Suc (length (history s))) 100"
proof -
  from assms(2) obtain row where row: "find (\<lambda>x. row_id x = r) (rows s) = Some row"
    by (cases "find (\<lambda>x. row_id x = r) (rows s)") (auto simp: find_None_iff)
  have at_end: "cursor_at_end (s\<lparr>rows := rs, validationErrors := es\<rparr>)" for rs es
    using assms(1) by (simp add: cursor_at_end_def)
  show ?thesis
    using row addToHistory_at_end [OF at_end]
    by (simp add: updateCell_def Let_def scheduleAutoSave_def cursor_at_end_def)
qed

lemma edit_all_row_ids [simp]:
  "map row_id (rows (edit_all edits s)) = map row_id (rows s)"
  unfolding edit_all_def by (induction edits arbitrary: s) simp_all

lemma edit_all_at_end:
  assumes "cursor_at_end s" and "\<forall>e \<in> set edits. fst e \<in> row_id ` set (rows s)"
  shows "cursor_at_end (edit_all edits s)
         \<and> length (history (edit_all edits s)) = min (length (history s) + length edits) 100"
  using assms
proof (induction edits arbitrary: s)
  case Nil
  then show ?case by (simp add: edit_all_def cursor_at_end_def)
next
  case (Cons e edits)
  let ?s1 = "updateCell (fst e) (fst (snd e)) (snd (snd e)) s"
  from Cons.prems have step: "cursor_at_end ?s1"
      "length (history ?s1) = min (Suc (length (history s))) 100"
    using updateCell_at_end [of s "fst e"] by simp_all
  have "set (rows ?s1) = set (rows ?s1)" ..
  have ids: "row_id ` set (rows ?s1) = row_id ` set (rows s)"
    using updateCell_row_ids [of "fst e" "fst (snd e)" "snd (snd e)" s]
    by (metis list.set_map)
  from Cons.prems(2) ids have "\<forall>x \<in> set edits. fst x \<in> row_id ` set (rows ?s1)" by simp
  from Cons.IH [OF step(1) this] step(2)
  show ?case by (simp add: edit_all_def min_def)
qed

lemma addToHistory_evicts:
  assumes "length (history s) = 100" and "historyIndex s = 99"
  shows "history (addToHistory opn prev new s) =
           tl (history s) @ [\<lparr>operation = opn, previousValues = prev, newValues = new\<rparr>]
         \<and> historyIndex (addToHistory opn prev new s) = 99"
  using assms by (cases "history s") (auto simp: addToHistory_def slice0_def Let_def)

text \<open>
  C5. From a state that satisfies the history invariant, every session (edits, batch
  operations, undo, redo, clearing) runs without an exception and ends in a state that
  satisfies it: at most 100 entries, and \<open>0 \<le> historyIndex < length\<close> whenever the log
  is not empty. Recording an entry keeps the invariant; when the log holds 100 entries
  with the cursor on the last one, recording drops the oldest entry, appends the new one
  and leaves the cursor at 99 (one below the incremented value). 150 single-cell edits
  of existing rows on an empty log leave exactly 100 entries.
\<close>

theorem history_bound:
  assumes "history_ok s"
  shows "(\<exists>s'. session_run acts s = Inr s' \<and> history_ok s')
         \<and> history_ok (addToHistory opn prev new s)
         \<and> (length (history s) = 100 \<and> historyIndex s = 99 \<longrightarrow>
              history (addToHistory opn prev new s) =
                tl (history s) @ [\<lparr>operation = opn, previousValues = prev, newValues = new\<rparr>]
              \<and> historyIndex (addToHistory opn prev new s) = 99)
         \<and> (history s = [] \<and> length edits = 150
              \<and> (\<forall>e \<in> set edits. fst e \<in> row_id ` set (rows s)) \<longrightarrow>
              length (history (edit_all edits s)) = 100)"
proof -
  have "length (history (edit_all edits s)) = 100"
    if "history s = []" "length edits = 150" "\<forall>e \<in> set edits. fst e \<in> row_id ` set (rows s)"
  proof -
    from assms that(1) have "cursor_at_end s" by (simp add: history_ok_def cursor_at_end_def)
    from edit_all_at_end [OF this that(3)] that(1,2) show ?thesis by simp
  qed
  then show ?thesis
    using assms session_run_ok [OF assms] history_ok_addToHistory [OF assms] addToHistory_evicts
    by blast
qed

lemma history_ok_ex_loaded: "history_ok ex_loaded"
  by (simp add: ex_loaded_eval history_ok_def)

lemma ex_full_facts:
  "history_ok ex_full" "length (history ex_full) = 100" "historyIndex ex_full = 99"
proof -
  have at_end: "cursor_at_end ex_loaded" by (simp add: ex_loaded_eval cursor_at_end_def)
  have ids: "\<forall>e \<in> set (replicate 100 (1, ''assignment1'', Some 90)).
      fst e \<in> row_id ` set (rows ex_loaded)"
    by (simp add: ex_loaded_eval)
  from edit_all_at_end [OF at_end ids]
  have "cursor_at_end ex_full" and len: "length (history ex_full) = 100"
    by (simp_all add: ex_full_def ex_loaded_eval)
  then show "length (history ex_full) = 100" and "historyIndex ex_full = 99"
    by (simp_all add: cursor_at_end_def)
  then show "history_ok ex_full" by (auto simp: history_ok_def)
qed


theorem history_bound_witness:
  "(\<exists>s'. session_run [UpdateCell 1 ''assignment1'' (Some 90), Undo, Redo] ex_loaded = Inr s'
         \<and> history_ok s')
   \<and> history_ok (addToHistory ex_clear_op [] [] ex_loaded)
   \<and> history (addToHistory ex_clear_op [] [] ex_full)
       = tl (history ex_full)
         @ [\<lparr>operation = ex_clear_op, previousValues = [], newValues = []\<rparr>]
   \<and> historyIndex (addToHistory ex_clear_op [] [] ex_full) = 99
   \<and> length (history (edit_all (replicate 150 (1, ''assignment1'', Some 90)) ex_loaded)) = 100"
proof -
  have ids: "\<forall>e \<in> set (replicate 150 (1::int, ''assignment1'', Some (90::rat))).
      fst e \<in> row_id ` set (rows ex_loaded)"
    by (simp add: ex_loaded_eval)
  have empty: "history ex_loaded = []" by (simp add: ex_loaded_eval)
  show ?thesis
    using history_bound [OF history_ok_ex_loaded,
        of "[UpdateCell 1 ''assignment1'' (Some 90), Undo, Redo]" ex_clear_op "[]" "[]"
           "replicate 150 (1, ''assignment1'', Some 90)"]
      history_bound [OF ex_full_facts(1), of "[]" ex_clear_op "[]" "[]" "[]"]
      ids empty ex_full_facts(2,3)
    by simp
qed

subsection \<open>A rejected save changes nothing but the error state\<close>

text \<open>
  C9. When the update request rejects, \<^verbatim>\<open>saveGrades\<close> throws the rejection it
  received, the rows (grade values and \<open>isModified\<close> flags included), the list of
  modified rows and the validation errors are what they were before the call,
  \<open>state.error\<close> holds the failure text and \<open>saving\<close> is false again. The continuation
  alone has the same effect on whatever state it resumes in.
\<close>

theorem save_failure_atomic:
  assumes "courseInfo s \<noteq> None"
  shows "fst (saveGrades g (Rejected err) s) = Inl err
   \<and> rows (snd (saveGrades g (Rejected err) s)) = rows s
   \<and> modifiedRows (snd (saveGrades g (Rejected err) s)) = modifiedRows s
   \<and> validationErrors (snd (saveGrades g (Rejected err) s)) = validationErrors s
   \<and> error (snd (saveGrades g (Rejected err) s)) = Some (error_message err SaveFailed)
   \<and> saving (snd (saveGrades g (Rejected err) s)) = False
   \<and> fst (saveGrades_settle g (Rejected err) t) = Inl err
   \<and> rows (snd (saveGrades_settle g (Rejected err) t)) = rows t
   \<and> validationErrors (snd (saveGrades_settle g (Rejected err) t)) = validationErrors t"
  using assms
  by (auto simp: saveGrades_def saveGrades_dispatch_def saveGrades_settle_def modifiedRows_def)

theorem save_failure_atomic_witness:
  "fst (saveGrades [(''1-assignment1'', Some 90)] (Rejected (ApiError None)) ex_loaded)
     = Inl (ApiError None)
   \<and> rows (snd (saveGrades [(''1-assignment1'', Some 90)] (Rejected (ApiError None)) ex_loaded))
     = rows ex_loaded
   \<and> validationErrors
        (snd (saveGrades [(''1-assignment1'', Some 90)] (Rejected (ApiError None)) ex_loaded))
     = validationErrors ex_loaded
   \<and> error (snd (saveGrades [(''1-assignment1'', Some 90)] (Rejected (ApiError None)) ex_loaded))
     = Some SaveFailed"
proof -
  have "courseInfo ex_loaded \<noteq> None" by (simp add: ex_loaded_eval)
  from save_failure_atomic [OF this, of "[(''1-assignment1'', Some 90)]" "ApiError None"]
  show ?thesis by (simp add: error_message_def)
qed

subsection \<open>Extending a selection from the anchor\<close>

lemma extend_keeps_anchor:
  "anchorCell (SelectionManager_selectCell r c True m) = anchorCell m"
  by (simp add: SelectionManager_selectCell_def split: option.splits)

lemma extend_all_anchor: "anchorCell (extend_all ts m) = anchorCell m"
  unfolding extend_all_def
  by (induction ts arbitrary: m) (simp_all add: extend_keeps_anchor)

lemma extend_all_snoc:
  "extend_all (ts @ [t]) m = SelectionManager_selectCell (fst t) (snd t) True (extend_all ts m)"
  by (simp add: extend_all_def)

text \<open>
  What the selection manager does guarantee: after a non-extending
  \<^verbatim>\<open>selectCell(a)\<close> and any non-empty sequence of extending calls, the anchor is still
  \<open>a\<close> and the selection is the single rectangle whose rows run from the smaller to the
  larger of the anchor's and the last target's row, whose start column is the anchor's
  and whose end column is the last target's, in that order.
\<close>

theorem extension_from_anchor:
  assumes "ts \<noteq> []"
  shows "anchorCell (extend_all ts (SelectionManager_selectCell ar ac False m)) = Some (ar, ac)
   \<and> selections (extend_all ts (SelectionManager_selectCell ar ac False m)) =
       [\<lparr>startRow = min ar (fst (last ts)), endRow = max ar (fst (last ts)),
         startColumn = ac, endColumn = snd (last ts), sel_type = Range\<rparr>]"
proof -
  let ?m0 = "SelectionManager_selectCell ar ac False m"
  have anchor: "anchorCell (extend_all us ?m0) = Some (ar, ac)" for us
    by (simp add: extend_all_anchor) (simp add: SelectionManager_selectCell_def)
  from assms obtain us t where ts: "ts = us @ [t]"
    by (cases ts rule: rev_cases) auto
  show ?thesis
    using anchor [of us] anchor [of ts]
    by (simp add: ts extend_all_snoc) (simp add: SelectionManager_selectCell_def)
qed

theorem extension_from_anchor_witness:
  "anchorCell (extend_all [(5, ''c''), (3, ''b'')]
      (SelectionManager_selectCell 2 ''a'' False SelectionManager_init)) = Some (2, ''a'')
   \<and> selections (extend_all [(5, ''c''), (3, ''b'')]
      (SelectionManager_selectCell 2 ''a'' False SelectionManager_init)) =
       [\<lparr>startRow = 2, endRow = 3, startColumn = ''a'', endColumn = ''b'', sel_type = Range\<rparr>]"
  using extension_from_anchor [of "[(5, ''c''), (3, ''b'')]" 2 "''a''" SelectionManager_init]
  by simp

text \<open>
  C10. An extension is to yield the normalized rectangle between the anchor and the
  target. The store's \<^verbatim>\<open>selectCell\<close> keeps no anchor and extends the previous
  rectangle: after selecting the row at index 0 and extending to index 2, extending to
  index 1 still spans indices 0 to 2, where the rectangle from the anchor spans 0 to 1.
  The selection manager keeps the anchor but takes the columns in anchor-to-target order:
  anchored at column \<open>b\<close> and extended to column \<open>a\<close> the rectangle starts at \<open>b\<close>
  and ends at \<open>a\<close>, which is not normalized (\<open>b\<close> is not below \<open>a\<close>), and
  \<^verbatim>\<open>isCellSelected\<close> then finds not even the anchor cell selected.
\<close>

theorem extension_not_from_anchor:
  "selectedCells (selectCell 20 ''assignment1'' True
      (selectCell 30 ''assignment1'' True (selectCell 10 ''assignment1'' False ex_three)))
     = [\<lparr>startRow = 0, endRow = 2, startColumn = ''assignment1'',
         endColumn = ''assignment1'', sel_type = Range\<rparr>]
   \<and> selections (SelectionManager_selectCell 2 ''a'' True
        (SelectionManager_selectCell 1 ''b'' False SelectionManager_init))
     = [\<lparr>startRow = 1, endRow = 2, startColumn = ''b'', endColumn = ''a'', sel_type = Range\<rparr>]
   \<and> \<not> (''b'' \<le> ''a'')
   \<and> \<not> isCellSelected (SelectionManager_selectCell 2 ''a'' True
        (SelectionManager_selectCell 1 ''b'' False SelectionManager_init)) 1 ''b''"
  by (simp add: selectCell_def ex_three_eval ex_columns_def SelectionManager_selectCell_def
      SelectionManager_init_def isCellSelected_def)

subsection \<open>Ranks\<close>

lemma findIndex_nonneg_iff: "0 \<le> findIndex P xs \<longleftrightarrow> (\<exists>x \<in> set xs. P x)"
  by (induction xs) (auto simp: Let_def)

lemma findIndex_ge_minus1: "- 1 \<le> findIndex P xs"
  by (induction xs) (auto simp: Let_def)

lemma findIndex_less_length: "findIndex P xs < int (length xs)"
  by (induction xs) (auto simp: Let_def)

lemma findIndex_nth: "0 \<le> findIndex P xs \<Longrightarrow> P (xs ! nat (findIndex P xs))"
proof (induction xs)
  case Nil
  then show ?case by simp
next
  case (Cons x xs)
  show ?case
  proof (cases "P x")
    case True
    then show ?thesis by simp
  next
    case False
    with Cons.prems have nn: "0 \<le> findIndex P xs" by (simp add: Let_def split: if_splits)
    then have "nat (findIndex P xs + 1) = Suc (nat (findIndex P xs))" by simp
    with False nn Cons.IH show ?thesis by (simp add: Let_def)
  qed
qed

lemma update_first_distinct:
  assumes "distinct (map g xs)"
  shows "update_first (\<lambda>r. g r = k) f xs = map (\<lambda>r. if g r = k then f r else r) xs"
  using assms
proof (induction xs)
  case Nil
  then show ?case by simp
next
  case (Cons x xs)
  show ?case
  proof (cases "g x = k")
    case True
    with Cons.prems have "\<forall>r \<in> set xs. g r \<noteq> k" by (auto simp: image_iff)
    then have "map (\<lambda>r. if g r = k then f r else r) xs = xs"
      by (induction xs) simp_all
    with True show ?thesis by simp
  next
    case False
    with Cons show ?thesis by simp
  qed
qed

lemma assign_rank_distinct:
  assumes "distinct (map row_id rs)"
  shows "assign_rank rs (k, y) =
           map (\<lambda>r. if row_id r = row_id y then r\<lparr>rank := int k + 1\<rparr> else r) rs"
  using update_first_distinct [OF assms] by (simp add: assign_rank_def)

lemma foldl_assign_rank:
  assumes "distinct (map row_id rs)" and "distinct (map row_id ys)"
  shows "foldl assign_rank rs (enumerate k ys) =
           map (\<lambda>r. if findIndex (\<lambda>y. row_id y = row_id r) ys < 0 then r
                     else r\<lparr>rank := int k + findIndex (\<lambda>y. row_id y = row_id r) ys + 1\<rparr>) rs"
  using assms
proof (induction ys arbitrary: rs k)
  case Nil
  then show ?case by simp
next
  case (Cons y ys)
  let ?rs1 = "map (\<lambda>r. if row_id r = row_id y then r\<lparr>rank := int k + 1\<rparr> else r) rs"
  have ids: "map row_id ?rs1 = map row_id rs" by (induction rs) simp_all
  have notin: "findIndex (\<lambda>z. row_id z = row_id y) ys < 0"
    using Cons.prems(2) findIndex_nonneg_iff [of "\<lambda>z. row_id z = row_id y" ys]
    by (auto simp: not_le [symmetric] image_iff)
  have "foldl assign_rank rs (enumerate k (y # ys)) =
          foldl assign_rank ?rs1 (enumerate (Suc k) ys)"
    by (simp add: assign_rank_distinct [OF Cons.prems(1)])
  also have "\<dots> = map (\<lambda>r. if findIndex (\<lambda>y. row_id y = row_id r) ys < 0 then r
          else r\<lparr>rank := int (Suc k) + findIndex (\<lambda>y. row_id y = row_id r) ys + 1\<rparr>) ?rs1"
  proof (rule Cons.IH)
    show "distinct (map row_id ?rs1)" using Cons.prems(1) by (simp only: ids)
    show "distinct (map row_id ys)" using Cons.prems(2) by simp
  qed
  also have "\<dots> = map (\<lambda>r. if findIndex (\<lambda>z. row_id z = row_id r) (y # ys) < 0 then r
          else r\<lparr>rank := int k + findIndex (\<lambda>z. row_id z = row_id r) (y # ys) + 1\<rparr>) rs"
    using notin by (auto simp: Let_def eq_commute [of "row_id y"])
  finally show ?case .
qed

lemma distinct_ids_imp_distinct: "distinct (map row_id rs) \<Longrightarrow> distinct rs"
  by (simp add: distinct_map)

lemma sortedRows_ids:
  assumes "distinct (map row_id rs)"
  shows "distinct (map row_id (sortedRows rs))"
proof -
  have "inj_on row_id (set rs)" using assms by (simp add: distinct_map)
  moreover have "distinct (sortedRows rs)"
    using assms by (simp add: sortedRows_def distinct_ids_imp_distinct)
  ultimately show ?thesis by (simp add: distinct_map sortedRows_def)
qed

lemma calculateRanks_closed_form:
  assumes "distinct (map row_id rs)"
  shows "calculateRanks rs =
           map (\<lambda>r. r\<lparr>rank := findIndex (\<lambda>y. row_id y = row_id r) (sortedRows rs) + 1\<rparr>) rs"
proof -
  have "0 \<le> findIndex (\<lambda>y. row_id y = row_id r) (sortedRows rs)" if "r \<in> set rs" for r
    using that by (auto simp: findIndex_nonneg_iff sortedRows_def)
  then show ?thesis
    unfolding calculateRanks_def foldl_assign_rank [OF assms sortedRows_ids [OF assms]]
    by (auto simp: not_less [symmetric])
qed


lemma sortedRows_position:
  assumes "distinct (map row_id rs)" and "r \<in> set rs"
  shows "0 \<le> findIndex (\<lambda>y. row_id y = row_id r) (sortedRows rs)"
    and "findIndex (\<lambda>y. row_id y = row_id r) (sortedRows rs) < int (length rs)"
    and "sortedRows rs ! nat (findIndex (\<lambda>y. row_id y = row_id r) (sortedRows rs)) = r"
proof -
  let ?ys = "sortedRows rs"
  let ?p = "findIndex (\<lambda>y. row_id y = row_id r) ?ys"
  show nn: "0 \<le> ?p" using assms(2) by (auto simp: findIndex_nonneg_iff sortedRows_def)
  show lt: "?p < int (length rs)"
    using findIndex_less_length [of "\<lambda>y. row_id y = row_id r" ?ys] by (simp add: sortedRows_def)
  from nn lt have "?ys ! nat ?p \<in> set rs"
    using nth_mem [of "nat ?p" ?ys] by (simp add: sortedRows_def)
  moreover have "row_id (?ys ! nat ?p) = row_id r" using findIndex_nth [OF nn] .
  moreover have "inj_on row_id (set rs)" using assms(1) by (simp add: distinct_map)
  ultimately show "?ys ! nat ?p = r" using assms(2) by (auto dest: inj_onD)
qed

lemma filter_keeps_order:
  assumes "i < j" and "j < length xs" and "P (xs ! i)" and "P (xs ! j)"
  shows "\<exists>a b. a < b \<and> b < length (filter P xs)
           \<and> filter P xs ! a = xs ! i \<and> filter P xs ! b = xs ! j"
proof -
  let ?A = "take i xs" and ?B = "drop (Suc i) (take j xs)" and ?C = "drop (Suc j) xs"
  have 1: "take j xs = ?A @ xs ! i # ?B"
    using assms(1,2) id_take_nth_drop [of i "take j xs"] by (simp add: min_def)
  have 2: "xs = take j xs @ xs ! j # ?C"
    using assms(2) by (rule id_take_nth_drop)
  have "xs = (?A @ xs ! i # ?B) @ xs ! j # ?C"
    by (subst 1 [symmetric]) (rule 2)
  then have xs: "xs = ?A @ xs ! i # ?B @ xs ! j # ?C" by simp
  define FA FB FC where "FA = filter P ?A" and "FB = filter P ?B" and "FC = filter P ?C"
  have "filter P xs = filter P (?A @ xs ! i # ?B @ xs ! j # ?C)"
    using xs by simp
  then have f: "filter P xs = FA @ xs ! i # FB @ xs ! j # FC"
    using assms(3,4) by (simp add: FA_def FB_def FC_def)
  have "filter P xs ! length FA = xs ! i" by (simp add: f)
  moreover have "filter P xs ! (length FA + Suc (length FB)) = xs ! j"
    by (simp add: f nth_append)
  moreover have "length FA + Suc (length FB) < length (filter P xs)" by (simp add: f)
  moreover have "length FA < length FA + Suc (length FB)" by simp
  ultimately show ?thesis by blast
qed



lemma sortedRows_higher_total_first:
  assumes d: "distinct (map row_id rs)" and ri: "ri \<in> set rs" and rj: "rj \<in> set rs"
    and lt: "totalScore rj < totalScore ri"
  shows "findIndex (\<lambda>y. row_id y = row_id ri) (sortedRows rs)
           < findIndex (\<lambda>y. row_id y = row_id rj) (sortedRows rs)"
proof (rule ccontr)
  let ?ys = "sortedRows rs"
  let ?f = "\<lambda>r. - totalScore r"
  define pi where "pi = nat (findIndex (\<lambda>y. row_id y = row_id ri) ?ys)"
  define pj where "pj = nat (findIndex (\<lambda>y. row_id y = row_id rj) ?ys)"
  assume "\<not> findIndex (\<lambda>y. row_id y = row_id ri) ?ys < findIndex (\<lambda>y. row_id y = row_id rj) ?ys"
  then have le: "pj \<le> pi" by (simp add: pi_def pj_def)
  have len: "pi < length ?ys"
    using sortedRows_position(1,2) [OF d ri] by (simp add: sortedRows_def pi_def)
  have at_i: "?ys ! pi = ri" unfolding pi_def by (rule sortedRows_position(3) [OF d ri])
  have at_j: "?ys ! pj = rj" unfolding pj_def by (rule sortedRows_position(3) [OF d rj])
  have "sorted (map ?f ?ys)" by (simp add: sortedRows_def)
  then have "map ?f ?ys ! pj \<le> map ?f ?ys ! pi"
    using le len by (intro sorted_nth_mono) simp_all
  then have "?f (?ys ! pj) \<le> ?f (?ys ! pi)" using le len by simp
  then show False using lt by (simp add: at_i at_j)
qed


lemma sortedRows_ties_in_row_order:
  assumes d: "distinct (map row_id rs)" and ij: "i < j" and j: "j < length rs"
    and eq: "totalScore (rs ! i) = totalScore (rs ! j)"
  shows "findIndex (\<lambda>y. row_id y = row_id (rs ! i)) (sortedRows rs)
           < findIndex (\<lambda>y. row_id y = row_id (rs ! j)) (sortedRows rs)"
proof (rule ccontr)
  let ?ys = "sortedRows rs"
  define ri where "ri = rs ! i"
  define rj where "rj = rs ! j"
  define pi where "pi = nat (findIndex (\<lambda>y. row_id y = row_id ri) ?ys)"
  define pj where "pj = nat (findIndex (\<lambda>y. row_id y = row_id rj) ?ys)"
  define P where "P = (\<lambda>y::StudentGradeRow. - totalScore y = - totalScore ri)"
  have ri: "ri \<in> set rs" and rj: "rj \<in> set rs" using ij j by (simp_all add: ri_def rj_def)
  have dist: "distinct rs" using d by (simp add: distinct_map)
  have neq: "ri \<noteq> rj" using dist ij j by (simp add: nth_eq_iff_index_eq ri_def rj_def)
  have at_i: "?ys ! pi = ri" unfolding pi_def by (rule sortedRows_position(3) [OF d ri])
  have at_j: "?ys ! pj = rj" unfolding pj_def by (rule sortedRows_position(3) [OF d rj])
  have Pi: "P ri" and Pj: "P rj" using eq by (simp_all add: P_def ri_def rj_def)
  assume "\<not> findIndex (\<lambda>y. row_id y = row_id (rs ! i)) ?ys
            < findIndex (\<lambda>y. row_id y = row_id (rs ! j)) ?ys"
  then have le: "pj \<le> pi" by (simp add: pi_def pj_def ri_def rj_def)
  have "pi \<noteq> pj"
  proof
    assume "pi = pj"
    with at_i at_j have "ri = rj" by simp
    with neq show False ..
  qed
  with le have lt: "pj < pi" by simp
  have len: "pi < length ?ys"
    using sortedRows_position(1,2) [OF d ri] by (simp add: sortedRows_def pi_def)
  have stable: "filter P ?ys = filter P rs"
    unfolding sortedRows_def P_def by (rule sort_key_stable)
  have "\<exists>a b. a < b \<and> b < length (filter P rs)
           \<and> filter P rs ! a = rs ! i \<and> filter P rs ! b = rs ! j"
    using ij j Pi Pj by (intro filter_keeps_order) (simp_all add: ri_def rj_def)
  then obtain a b where ab: "a < b" "b < length (filter P rs)"
      "filter P rs ! a = ri" "filter P rs ! b = rj" by (auto simp: ri_def rj_def)
  have "\<exists>a b. a < b \<and> b < length (filter P ?ys)
           \<and> filter P ?ys ! a = ?ys ! pj \<and> filter P ?ys ! b = ?ys ! pi"
    using lt len Pi Pj by (intro filter_keeps_order) (simp_all add: at_i at_j)
  then obtain c e where ce: "c < e" "e < length (filter P rs)"
      "filter P rs ! c = rj" "filter P rs ! e = ri"
    unfolding stable at_i at_j by blast
  have df: "distinct (filter P rs)" using dist by simp
  have "a < length (filter P rs)" and "c < length (filter P rs)"
    using ab(1,2) ce(1,2) by simp_all
  then have "a = e" and "b = c"
    using nth_eq_iff_index_eq [OF df, of a e] nth_eq_iff_index_eq [OF df, of b c] ab ce
    by simp_all
  then show False using ab(1) ce(1) by simp
qed


text \<open>
  C6 (as amended). For rows with pairwise distinct ids, \<^verbatim>\<open>calculateRanks\<close> changes
  only the \<open>rank\<close> field, and the rank of a row is one plus its position in the stable
  sort of the rows by descending total. So ranks lie in \<open>1..n\<close>, a row with a strictly
  higher total has a strictly smaller rank, and of two rows with equal totals the one
  that comes first in the row list has the smaller rank: ties do not share a rank.
\<close>

theorem ranks_are_sort_positions:
  assumes "distinct (map row_id rs)" and "i < length rs" and "j < length rs"
  shows "length (calculateRanks rs) = length rs
     \<and> calculateRanks rs ! i =
         (rs ! i)\<lparr>rank := findIndex (\<lambda>y. row_id y = row_id (rs ! i)) (sortedRows rs) + 1\<rparr>
     \<and> 1 \<le> rank (calculateRanks rs ! i) \<and> rank (calculateRanks rs ! i) \<le> int (length rs)
     \<and> (totalScore (rs ! j) < totalScore (rs ! i) \<longrightarrow>
          rank (calculateRanks rs ! i) < rank (calculateRanks rs ! j))
     \<and> (totalScore (rs ! i) = totalScore (rs ! j) \<and> i < j \<longrightarrow>
          rank (calculateRanks rs ! i) < rank (calculateRanks rs ! j))"
proof -
  note cf = calculateRanks_closed_form [OF assms(1)]
  have ri: "rs ! i \<in> set rs" and rj: "rs ! j \<in> set rs" using assms(2,3) by simp_all
  note posi = sortedRows_position [OF assms(1) ri]
  have ranki: "rank (calculateRanks rs ! i) =
      findIndex (\<lambda>y. row_id y = row_id (rs ! i)) (sortedRows rs) + 1"
    using assms(2) by (simp add: cf)
  have rankj: "rank (calculateRanks rs ! j) =
      findIndex (\<lambda>y. row_id y = row_id (rs ! j)) (sortedRows rs) + 1"
    using assms(3) by (simp add: cf)
  have "length (calculateRanks rs) = length rs" by (simp add: cf)
  moreover have "calculateRanks rs ! i =
      (rs ! i)\<lparr>rank := findIndex (\<lambda>y. row_id y = row_id (rs ! i)) (sortedRows rs) + 1\<rparr>"
    using assms(2) by (simp add: cf)
  moreover have "1 \<le> rank (calculateRanks rs ! i)" using posi(1) by (simp add: ranki)
  moreover have "rank (calculateRanks rs ! i) \<le> int (length rs)"
    using posi(2) by (simp add: ranki)
  moreover have "rank (calculateRanks rs ! i) < rank (calculateRanks rs ! j)"
    if "totalScore (rs ! j) < totalScore (rs ! i)"
    using sortedRows_higher_total_first [OF assms(1) ri rj that] by (simp add: ranki rankj)
  moreover have "rank (calculateRanks rs ! i) < rank (calculateRanks rs ! j)"
    if "totalScore (rs ! i) = totalScore (rs ! j)" "i < j"
    using sortedRows_ties_in_row_order [OF assms(1) that(2) assms(3) that(1)]
    by (simp add: ranki rankj)
  ultimately show ?thesis by blast
qed

theorem ranks_are_sort_positions_witness:
  "length (calculateRanks ex_rows) = length ex_rows
   \<and> 1 \<le> rank (calculateRanks ex_rows ! 0)
   \<and> rank (calculateRanks ex_rows ! 0) \<le> int (length ex_rows)
   \<and> rank (calculateRanks ex_rows ! 0) < rank (calculateRanks ex_rows ! 1)
   \<and> rank (calculateRanks ex_rows ! 0) < rank (calculateRanks ex_rows ! 2)"
proof -
  have d: "distinct (map row_id ex_rows)" by (simp add: ex_rows_eval)
  have len: "length ex_rows = 3" by (simp add: ex_rows_eval)
  have t: "totalScore (ex_rows ! 1) < totalScore (ex_rows ! 0)"
      "totalScore (ex_rows ! 0) = totalScore (ex_rows ! 2)"
    by (simp_all add: ex_rows_eval)
  have "(0::nat) < length ex_rows" "1 < length ex_rows" "2 < length ex_rows"
    by (simp_all add: len)
  moreover have "(0::nat) < 2" by simp
  ultimately show ?thesis
    using ranks_are_sort_positions [OF d, of 0 1] ranks_are_sort_positions [OF d, of 0 2] t
    by blast
qed

text \<open>
  Two rows with the same total (17) get the ranks 1 and 2.
\<close>

theorem ties_get_distinct_ranks_counterexample:
  "totalScore (rows ex_tied ! 0) = totalScore (rows ex_tied ! 1)
   \<and> rank (rows ex_tied ! 0) = 1 \<and> rank (rows ex_tied ! 1) = 2"
  by (simp add: ex_tied_rows)

declare digits10.simps [simp del]

subsection \<open>The has-error flags\<close>

lemma updateCell_no_row:
  "find (\<lambda>x. row_id x = r) (rows s) = None \<Longrightarrow> updateCell r c v s = s"
  by (simp add: updateCell_def)

lemma updateCell_fields:
  assumes "find (\<lambda>x. row_id x = r) (rows s) = Some row"
  shows "validationErrors (updateCell r c v s) =
           (case validateCell s r c v of
              Some m \<Rightarrow> validationErrors s @ [\<lparr>rowId = r, columnId = c, message = m\<rparr>]
            | None \<Rightarrow> filter (\<lambda>e. \<not> (rowId e = r \<and> columnId e = c)) (validationErrors s))"
    and "rows (updateCell r c v s) =
           update_first (\<lambda>x. row_id x = r)
             (\<lambda>x. write_cell (columns s) c v
                (x\<lparr>hasErrors := (case validateCell s r c v of Some m \<Rightarrow> True
                     | None \<Rightarrow> list_ex (\<lambda>e. rowId e = r)
                         (filter (\<lambda>e. \<not> (rowId e = r \<and> columnId e = c))
                            (validationErrors s)))\<rparr>)) (rows s)"
  using assms
  by (simp_all add: updateCell_def Let_def scheduleAutoSave_def split: option.splits)

lemma updateCell_frame [simp]:
  "columns (updateCell r c v s) = columns s"
  "selectedCells (updateCell r c v s) = selectedCells s"
  "courseInfo (updateCell r c v s) = courseInfo s"
  by (simp_all add: updateCell_def Let_def scheduleAutoSave_def split: option.splits)

lemma hasErrors_write_cell [simp]: "hasErrors (write_cell cols c v r) = hasErrors r"
  by (simp add: write_cell_def Let_def)

lemma flags_ok_updateCell:
  assumes d: "distinct (map row_id (rows s))" and ok: "flags_ok s"
  shows "flags_ok (updateCell r c v s)"
proof (cases "find (\<lambda>x. row_id x = r) (rows s)")
  case None
  then show ?thesis using ok by (simp add: updateCell_no_row)
next
  case (Some row)
  define errs where "errs =
    (case validateCell s r c v of
       Some m \<Rightarrow> validationErrors s @ [\<lparr>rowId = r, columnId = c, message = m\<rparr>]
     | None \<Rightarrow> filter (\<lambda>e. \<not> (rowId e = r \<and> columnId e = c)) (validationErrors s))"
  define flag where "flag =
    (case validateCell s r c v of Some m \<Rightarrow> True
     | None \<Rightarrow> list_ex (\<lambda>e. rowId e = r)
         (filter (\<lambda>e. \<not> (rowId e = r \<and> columnId e = c)) (validationErrors s)))"
  define h where "h = (\<lambda>x. if row_id x = r
     then write_cell (columns s) c v (x\<lparr>hasErrors := flag\<rparr>) else x)"
  have rows': "rows (updateCell r c v s) = map h (rows s)"
    unfolding updateCell_fields(2) [OF Some] update_first_distinct [OF d] h_def flag_def ..
  have errs': "validationErrors (updateCell r c v s) = errs"
    unfolding updateCell_fields(1) [OF Some] errs_def ..
  have flag_eq: "flag = (\<exists>e \<in> set errs. rowId e = r)"
    by (cases "validateCell s r c v") (simp_all add: flag_def errs_def list_ex_iff)
  have other: "(\<exists>e \<in> set errs. rowId e = r') = (\<exists>e \<in> set (validationErrors s). rowId e = r')"
    if "r' \<noteq> r" for r'
  proof (cases "validateCell s r c v")
    case None
    then have "set errs = {e \<in> set (validationErrors s). \<not> (rowId e = r \<and> columnId e = c)}"
      by (simp add: errs_def)
    with that show ?thesis by blast
  next
    case (Some m)
    then have "set errs = insert \<lparr>rowId = r, columnId = c, message = m\<rparr> (set (validationErrors s))"
      by (simp add: errs_def)
    with that show ?thesis by simp
  qed
  have "hasErrors (h x) = (\<exists>e \<in> set errs. rowId e = row_id (h x))" if "x \<in> set (rows s)" for x
  proof (cases "row_id x = r")
    case True
    then show ?thesis by (simp add: h_def flag_eq)
  next
    case False
    from ok that have "hasErrors x = (\<exists>e \<in> set (validationErrors s). rowId e = row_id x)"
      by (simp add: flags_ok_def list_all_iff list_ex_iff)
    with False other [OF False] show ?thesis by (simp add: h_def)
  qed
  then show ?thesis
    by (simp add: flags_ok_def rows' errs' list_all_iff list_ex_iff)
qed

lemma flags_ok_batch_steps:
  assumes "distinct (map row_id (rows s))" and "flags_ok s"
  shows "flags_ok (foldl batchUpdate_step s es)
    \<and> map row_id (rows (foldl batchUpdate_step s es)) = map row_id (rows s)"
  using assms
proof (induction es arbitrary: s)
  case Nil
  then show ?case by simp
next
  case (Cons kv es)
  have ids: "map row_id (rows (batchUpdate_step s kv)) = map row_id (rows s)"
    by (simp add: batchUpdate_step_def split: prod.splits option.splits)
  have "flags_ok (batchUpdate_step s kv)"
    using Cons.prems
    by (simp add: batchUpdate_step_def flags_ok_updateCell split: prod.splits option.splits)
  with Cons.IH [of "batchUpdate_step s kv"] Cons.prems(1) ids show ?case by simp
qed

lemma flags_ok_batchUpdate:
  assumes "distinct (map row_id (rows s))" and "flags_ok s"
  shows "flags_ok (batchUpdate u s) \<and> map row_id (rows (batchUpdate u s)) = map row_id (rows s)"
  using flags_ok_batch_steps [OF assms] by (simp add: batchUpdate_def)

lemma calculateRanks_map:
  assumes "\<And>r k. g (r\<lparr>rank := k\<rparr>) = g r"
  shows "map g (calculateRanks rs) = map g rs"
proof -
  have "map g (foldl assign_rank rs ps) = map g rs" for ps
    by (induction ps arbitrary: rs) (simp_all add: assign_rank_def map_update_first assms)
  then show ?thesis by (simp add: calculateRanks_def)
qed

lemma restore_value_map:
  assumes "\<And>r c v. g (write_cell cols c v r) = g r"
  shows "map g (foldl (restore_value cols) rs vals) = map g rs"
proof (induction vals arbitrary: rs)
  case Nil
  then show ?case by simp
next
  case (Cons kv vals)
  have "map g (restore_value cols rs kv) = map g rs"
    by (simp add: restore_value_def map_update_first assms split: prod.splits option.splits)
  with Cons.IH [of "restore_value cols rs kv"] show ?case by simp
qed

lemma replay_frame:
  "validationErrors (replay vals s) = validationErrors s"
  "map hasErrors (rows (replay vals s)) = map hasErrors (rows s)"
  "map row_id (rows (replay vals s)) = map row_id (rows s)"
  by (simp_all add: replay_def calculateRanks_map restore_value_map)

lemma flags_ok_cong:
  "validationErrors s' = validationErrors s \<Longrightarrow> map hasErrors (rows s') = map hasErrors (rows s)
   \<Longrightarrow> map row_id (rows s') = map row_id (rows s) \<Longrightarrow> flags_ok s' = flags_ok s"
proof -
  assume e: "validationErrors s' = validationErrors s"
    and h: "map hasErrors (rows s') = map hasErrors (rows s)"
    and i: "map row_id (rows s') = map row_id (rows s)"
  have len: "length (rows s') = length (rows s)" using i by (rule map_eq_imp_length_eq)
  have "hasErrors (rows s' ! k) = hasErrors (rows s ! k) \<and> row_id (rows s' ! k) = row_id (rows s ! k)"
    if "k < length (rows s)" for k
    using that len nth_map [of k "rows s'" hasErrors] nth_map [of k "rows s" hasErrors]
      nth_map [of k "rows s'" row_id] nth_map [of k "rows s" row_id] h i by simp
  then show ?thesis
    by (simp add: flags_ok_def e list_all_length len)
qed

lemma undo_frame:
  assumes "history_ok s"
  shows "\<exists>s'. undo s = Inr s' \<and> validationErrors s' = validationErrors s
           \<and> map hasErrors (rows s') = map hasErrors (rows s)
           \<and> map row_id (rows s') = map row_id (rows s)"
proof (cases "canUndo s")
  case False
  then show ?thesis by (simp add: undo_def)
next
  case True
  with assms have "0 \<le> historyIndex s - 1" "historyIndex s - 1 < int (length (history s))"
    by (auto simp: canUndo_def history_ok_def split: if_splits)
  then show ?thesis using True by (simp add: undo_def Let_def replay_frame)
qed

lemma redo_frame:
  assumes "history_ok s"
  shows "\<exists>s'. redo s = Inr s' \<and> validationErrors s' = validationErrors s
           \<and> map hasErrors (rows s') = map hasErrors (rows s)
           \<and> map row_id (rows s') = map row_id (rows s)"
proof (cases "canRedo s")
  case False
  then show ?thesis by (simp add: redo_def)
next
  case True
  with assms have "0 \<le> historyIndex s + 1" "historyIndex s + 1 < int (length (history s))"
    by (auto simp: canRedo_def history_ok_def split: if_splits)
  then show ?thesis using True by (simp add: redo_def Let_def replay_frame)
qed

lemma session_step_flags:
  assumes "session_inv s" and "a \<noteq> ValidateAll"
  shows "\<exists>s'. session_step a s = Inr s' \<and> session_inv s'"
proof (cases a)
  case (UpdateCell r c v)
  then show ?thesis
    using assms by (simp add: session_inv_def flags_ok_updateCell history_ok_updateCell)
next
  case (BatchUpdate u)
  then show ?thesis
    using assms flags_ok_batchUpdate [of s u] by (simp add: session_inv_def history_ok_batchUpdate)
next
  case (AddPoints p)
  then show ?thesis
    using assms flags_ok_batchUpdate [of s "arith_updates (\<lambda>v. v + p) s"]
    by (simp add: session_inv_def history_ok_batchUpdate addPoints_def)
next
  case (MultiplyBy k)
  then show ?thesis
    using assms flags_ok_batchUpdate [of s "arith_updates (\<lambda>v. v * k) s"]
    by (simp add: session_inv_def history_ok_batchUpdate multiplyBy_def)
next
  case (SelectCell r c e)
  then show ?thesis
    using assms by (simp add: session_inv_def) (simp add: selectCell_def Let_def flags_ok_def)
next
  case ValidateAll
  with assms show ?thesis by simp
next
  case Undo
  from assms obtain s' where s': "undo s = Inr s'" "validationErrors s' = validationErrors s"
      "map hasErrors (rows s') = map hasErrors (rows s)" "map row_id (rows s') = map row_id (rows s)"
    using undo_frame [of s] by (auto simp: session_inv_def)
  moreover have "history_ok s'" using undo_ok [of s] assms s'(1) by (auto simp: session_inv_def)
  ultimately show ?thesis
    using assms Undo flags_ok_cong [of s' s] by (simp add: session_inv_def)
next
  case Redo
  from assms obtain s' where s': "redo s = Inr s'" "validationErrors s' = validationErrors s"
      "map hasErrors (rows s') = map hasErrors (rows s)" "map row_id (rows s') = map row_id (rows s)"
    using redo_frame [of s] by (auto simp: session_inv_def)
  moreover have "history_ok s'" using redo_ok [of s] assms s'(1) by (auto simp: session_inv_def)
  ultimately show ?thesis
    using assms Redo flags_ok_cong [of s' s] by (simp add: session_inv_def)
next
  case ClearHistory
  then show ?thesis
    using assms by (simp add: session_inv_def) (simp add: clearHistory_def flags_ok_def)
qed

lemma session_run_flags:
  "session_inv s \<Longrightarrow> ValidateAll \<notin> set acts \<Longrightarrow>
     \<exists>s'. session_run acts s = Inr s' \<and> session_inv s'"
proof (induction acts arbitrary: s)
  case Nil
  then show ?case by simp
next
  case (Cons a acts)
  from Cons.prems have "a \<noteq> ValidateAll" by auto
  from session_step_flags [OF Cons.prems(1) this]
  obtain s1 where "session_step a s = Inr s1" "session_inv s1" by blast
  with Cons.IH [of s1] Cons.prems(2) show ?case by simp
qed

text \<open>
  C7 (as amended). From a state with distinct row ids in which every row's
  \<open>hasErrors\<close> flag tells whether the row appears in the validation error list, every
  session of \<^verbatim>\<open>updateCell\<close>, batch operations, selection, undo, redo and clearing
  the history ends in such a state. Undo and redo change neither the error list nor any
  flag, and \<^verbatim>\<open>validateAll\<close> leaves every flag as it was.
\<close>

theorem has_error_flags_kept:
  assumes "flags_ok s" and "distinct (map row_id (rows s))" and "history_ok s"
    and "ValidateAll \<notin> set acts"
  shows "(\<exists>s'. session_run acts s = Inr s' \<and> flags_ok s')
     \<and> (\<exists>s'. undo s = Inr s' \<and> validationErrors s' = validationErrors s
            \<and> map hasErrors (rows s') = map hasErrors (rows s))
     \<and> (\<exists>s'. redo s = Inr s' \<and> validationErrors s' = validationErrors s
            \<and> map hasErrors (rows s') = map hasErrors (rows s))
     \<and> map hasErrors (rows (validateAll s)) = map hasErrors (rows s)"
proof -
  have "session_inv s" using assms(1-3) by (simp add: session_inv_def)
  from session_run_flags [OF this assms(4)]
  have "\<exists>s'. session_run acts s = Inr s' \<and> flags_ok s'" by (auto simp: session_inv_def)
  moreover have "map hasErrors (rows (validateAll s)) = map hasErrors (rows s)"
    by (simp add: validateAll_def)
  ultimately show ?thesis
    using undo_frame [OF assms(3)] redo_frame [OF assms(3)] by blast
qed

lemma ex_over_eval:
  "ex_over =
     \<lparr>columns = ex_columns,
      rows = [\<lparr>row_id = 1, grades = [(''assignment1'', Some 150)], totalScore = 30,
               averageScore = 150, rank = 1, isModified = False, hasErrors = False\<rparr>],
      courseInfo = Some 1, saving = False, error = None, selectedCells = [],
      currentCell = None, validationErrors = [], history = [], historyIndex = -1,
      autoSave_enabled = True, autoSaveTimer = False\<rparr>"
  by (simp add: ex_over_def load_defs ex_columns_def)

lemma validate_out_of_range:
  "columns s = ex_columns \<Longrightarrow>
     validateCell s 1 ''assignment1'' (Some 150) = Some (OutOfRange 100)"
  by (simp add: validateCell_def ex_columns_def)

lemma ex_over_validateAll:
  "validateAll ex_over =
     ex_over\<lparr>validationErrors :=
       [\<lparr>rowId = 1, columnId = ''assignment1'', message = OutOfRange 100\<rparr>]\<rparr>"
proof -
  have "columns ex_over = ex_columns" by (simp add: ex_over_eval)
  from validate_out_of_range [OF this] show ?thesis
    by (simp add: validateAll_def validateAll_errors_def ex_over_eval ex_columns_def
        grade_or_null_def)
qed

lemma ex_edit_150:
  "updateCell 1 ''assignment1'' (Some 150) ex_loaded =
     \<lparr>columns = ex_columns,
      rows = [\<lparr>row_id = 1, grades = [(''assignment1'', Some 150)], totalScore = 30,
               averageScore = 150, rank = 1, isModified = True, hasErrors = True\<rparr>],
      courseInfo = Some 1, saving = False, error = None, selectedCells = [],
      currentCell = None,
      validationErrors = [\<lparr>rowId = 1, columnId = ''assignment1'', message = OutOfRange 100\<rparr>],
      history = [\<lparr>operation = \<lparr>op_type = OpSet, op_value = Some 150,
                   targetRange = \<lparr>startRow = 0, endRow = 0, startColumn = ''assignment1'',
                      endColumn = ''assignment1'', sel_type = Cell\<rparr>\<rparr>,
                  previousValues = [(''1-assignment1'', Some 85)],
                  newValues = [(''1-assignment1'', Some 150)]\<rparr>],
      historyIndex = 0, autoSave_enabled = True, autoSaveTimer = True\<rparr>"
proof -
  have "columns ex_loaded = ex_columns" by (simp add: ex_loaded_eval)
  from validate_out_of_range [OF this] show ?thesis
    unfolding updateCell_def
    by (simp add: ex_loaded_eval key_1_assignment1 addToHistory_def slice0_def
        scheduleAutoSave_def write_cell_def aggregate_defs ex_columns_def)
qed

theorem has_error_flags_kept_witness:
  "(\<exists>s'. session_run [UpdateCell 1 ''assignment1'' (Some 150),
             UpdateCell 1 ''assignment1'' (Some 90), Undo, Redo] ex_loaded = Inr s'
         \<and> flags_ok s')
   \<and> (\<exists>s'. undo ex_loaded = Inr s' \<and> validationErrors s' = validationErrors ex_loaded
          \<and> map hasErrors (rows s') = map hasErrors (rows ex_loaded))
   \<and> (\<exists>s'. redo ex_loaded = Inr s' \<and> validationErrors s' = validationErrors ex_loaded
          \<and> map hasErrors (rows s') = map hasErrors (rows ex_loaded))
   \<and> map hasErrors (rows (validateAll ex_loaded)) = map hasErrors (rows ex_loaded)"
proof -
  have f: "flags_ok ex_loaded" by (simp add: flags_ok_def ex_loaded_eval)
  have d: "distinct (map row_id (rows ex_loaded))" by (simp add: ex_loaded_eval)
  have v: "ValidateAll \<notin> set [UpdateCell 1 ''assignment1'' (Some 150),
      UpdateCell 1 ''assignment1'' (Some 90), Undo, Redo]"
    by simp
  show ?thesis by (rule has_error_flags_kept [OF f d history_ok_ex_loaded v])
qed

text \<open>
  A loaded grade of 150 is reported by \<^verbatim>\<open>validateAll\<close>, yet the row's flag stays
  false. And after the single out-of-range edit \<^verbatim>\<open>updateCell(1, 'assignment1', 150)\<close>
  an undo changes nothing: the cell keeps 150 and the flag stays true.
\<close>

theorem has_error_flag_counterexample:
  "map hasErrors (rows (validateAll ex_over)) = [False]
   \<and> map rowId (validationErrors (validateAll ex_over)) = [1]
   \<and> \<not> flags_ok (validateAll ex_over)
   \<and> undo (updateCell 1 ''assignment1'' (Some 150) ex_loaded)
       = Inr (updateCell 1 ''assignment1'' (Some 150) ex_loaded)
   \<and> map grades (rows (updateCell 1 ''assignment1'' (Some 150) ex_loaded))
       = [[(''assignment1'', Some 150)]]
   \<and> map hasErrors (rows (updateCell 1 ''assignment1'' (Some 150) ex_loaded)) = [True]"
  by (simp add: ex_over_validateAll flags_ok_def ex_edit_150 undo_def canUndo_def)
     (simp add: ex_over_eval)

subsection \<open>What autosave sends\<close>

lemma update_new_key: "k \<notin> fst ` set al \<Longrightarrow> AList.update k v al = al @ [(k, v)]"
  by (induction al) auto

lemma foldl_update_distinct:
  "distinct (map fst (u @ kvs)) \<Longrightarrow>
     foldl (\<lambda>u kv. AList.update (fst kv) (snd kv) u) u kvs = u @ kvs"
proof (induction kvs arbitrary: u)
  case Nil
  then show ?case by simp
next
  case (Cons kv kvs)
  from Cons.prems have new: "fst kv \<notin> fst ` set u" by auto
  have "distinct (map fst ((u @ [kv]) @ kvs))" using Cons.prems by simp
  from Cons.IH [OF this] show ?case by (simp add: update_new_key [OF new])
qed

lemma autosave_updates_foldl:
  "autosave_updates s =
     foldl (\<lambda>u kv. AList.update (fst kv) (snd kv) u) [] (concat (map row_entries (rows s)))"
proof -
  have inner: "foldl (\<lambda>u cv. AList.update (key_of (row_id r) (fst cv)) (snd cv) u) u g =
      foldl (\<lambda>u kv. AList.update (fst kv) (snd kv) u) u
        (map (\<lambda>cv. (key_of (row_id r) (fst cv), snd cv)) g)" for r u g
    by (induction g arbitrary: u) simp_all
  have "foldl (\<lambda>updates row.
          foldl (\<lambda>u cv. AList.update (key_of (row_id row) (fst cv)) (snd cv) u) updates
            (Object_entries (grades row))) u rs =
        foldl (\<lambda>u kv. AList.update (fst kv) (snd kv) u) u (concat (map row_entries rs))"
    for u rs
    by (induction rs arbitrary: u) (simp_all add: inner row_entries_def)
  then show ?thesis by (simp add: autosave_updates_def)
qed

lemma row_entries_keys_distinct:
  assumes "0 \<le> row_id r" and "row_id r < 10 ^ 21" and "distinct (map fst (grades r))"
    and "list_all (\<lambda>cv. CHR ''-'' \<notin> set (fst cv)) (grades r)"
  shows "distinct (map fst (row_entries r))"
proof -
  have "inj_on (key_of (row_id r)) (fst ` set (grades r))"
  proof (rule inj_onI)
    fix c c'
    assume "c \<in> fst ` set (grades r)" and "c' \<in> fst ` set (grades r)"
      and eq: "key_of (row_id r) c = key_of (row_id r) c'"
    then have nd: "CHR ''-'' \<notin> set c" "CHR ''-'' \<notin> set c'"
      using assms(4) by (auto simp: list_all_iff)
    from key_of_inject [OF assms(1,2) nd(1) assms(1,2) nd(2) eq] show "c = c'" by simp
  qed
  then have "distinct (map (key_of (row_id r)) (map fst (Object_entries (grades r))))"
    using distinct_Object_entries [OF assms(3)] by (simp add: distinct_map del: map_map)
  then show ?thesis by (simp add: row_entries_def comp_def)
qed

lemma row_entries_disjoint:
  assumes "0 \<le> row_id r" and "row_id r < 10 ^ 21"
    and "0 \<le> row_id r'" and "row_id r' < 10 ^ 21" and "row_id r \<noteq> row_id r'"
    and "list_all (\<lambda>cv. CHR ''-'' \<notin> set (fst cv)) (grades r)"
    and "list_all (\<lambda>cv. CHR ''-'' \<notin> set (fst cv)) (grades r')"
  shows "fst ` set (row_entries r) \<inter> fst ` set (row_entries r') = {}"
proof (rule ccontr)
  assume "fst ` set (row_entries r) \<inter> fst ` set (row_entries r') \<noteq> {}"
  then obtain cv cv' where cv: "cv \<in> set (grades r)" "cv' \<in> set (grades r')"
      and eq: "key_of (row_id r) (fst cv) = key_of (row_id r') (fst cv')"
    by (auto simp: row_entries_def)
  from cv assms(6,7)
  have nd: "CHR ''-'' \<notin> set (fst cv)" "CHR ''-'' \<notin> set (fst cv')"
    by (simp_all add: list_all_iff)
  from key_of_inject [OF assms(1,2) nd(1) assms(3,4) nd(2) eq] have "row_id r = row_id r'"
    by simp
  with assms(5) show False ..
qed

lemma all_entries_distinct:
  assumes "rows_wf rs"
  shows "distinct (map fst (concat (map row_entries rs)))"
  using assms
proof (induction rs)
  case Nil
  then show ?case by simp
next
  case (Cons r rs)
  from Cons.prems have wf: "rows_wf rs" by (simp add: rows_wf_def)
  from Cons.prems have r: "0 \<le> row_id r" "row_id r < 10 ^ 21" "distinct (map fst (grades r))"
      "list_all (\<lambda>cv. CHR ''-'' \<notin> set (fst cv)) (grades r)"
    by (simp_all add: rows_wf_def)
  have disj: "fst ` set (row_entries r) \<inter> fst ` set (row_entries r') = {}" if "r' \<in> set rs" for r'
  proof (rule row_entries_disjoint [OF r(1,2) _ _ _ r(4)])
    from Cons.prems that show "0 \<le> row_id r'" by (auto simp: rows_wf_def list_all_iff)
    from Cons.prems that show "row_id r' < 10 ^ 21" by (auto simp: rows_wf_def list_all_iff)
    from Cons.prems that show "row_id r \<noteq> row_id r'" by (auto simp: rows_wf_def)
    from Cons.prems that show "list_all (\<lambda>cv. CHR ''-'' \<notin> set (fst cv)) (grades r')"
      by (auto simp: rows_wf_def list_all_iff)
  qed
  then have "fst ` set (row_entries r) \<inter> fst ` set (concat (map row_entries rs)) = {}"
    by auto
  with Cons.IH [OF wf] row_entries_keys_distinct [OF r] show ?case
    by (simp add: image_Un)
qed

lemma autosave_updates_wf:
  assumes "rows_wf (rows s)"
  shows "autosave_updates s = concat (map row_entries (rows s))"
  using foldl_update_distinct [of "[]" "concat (map row_entries (rows s))"]
    all_entries_distinct [OF assms]
  by (simp add: autosave_updates_foldl)

lemma payload_row_entries:
  assumes "0 \<le> row_id r" and "row_id r < 10 ^ 21"
    and "list_all (\<lambda>cv. CHR ''-'' \<notin> set (fst cv)) (grades r)"
  shows "map (\<lambda>kv. let (rid, cid) = key_parts (fst kv)
                   in \<lparr>student_id = parseInt rid, column_id = cid, score = snd kv\<rparr>)
           (row_entries r) =
         map (\<lambda>cv. \<lparr>student_id = Some (row_id r), column_id = fst cv, score = snd cv\<rparr>)
           (Object_entries (grades r))"
  using assms
  by (auto simp: row_entries_def list_all_iff key_parts_key_of parseInt_show_int)

lemma save_payload_all:
  assumes "rows_wf rs"
  shows "save_payload (concat (map row_entries rs)) =
           concat (map (\<lambda>r. map (\<lambda>cv. \<lparr>student_id = Some (row_id r), column_id = fst cv,
                                          score = snd cv\<rparr>) (Object_entries (grades r))) rs)"
proof -
  have "\<forall>e \<in> set (concat (map row_entries rs)). CHR ''-'' \<in> set (fst e)"
    by (auto simp: row_entries_def key_of_dash)
  then have same: "Object_entries (concat (map row_entries rs)) = concat (map row_entries rs)"
    by (rule Object_entries_dash)
  have row: "map (\<lambda>kv. let (rid, cid) = key_parts (fst kv)
                       in \<lparr>student_id = parseInt rid, column_id = cid, score = snd kv\<rparr>)
               (row_entries r) =
             map (\<lambda>cv. \<lparr>student_id = Some (row_id r), column_id = fst cv, score = snd cv\<rparr>)
               (Object_entries (grades r))" if "r \<in> set rs" for r
    using that assms by (intro payload_row_entries) (auto simp: rows_wf_def list_all_iff)
  show ?thesis
    unfolding save_payload_def same map_concat map_map comp_def
    using row by (simp cong: map_cong)
qed

text \<open>
  C8 (as amended). Let the rows have pairwise distinct ids that are non-negative
  integers below \<open>2^53\<close>, and let every grade record have keys without a hyphen (each
  key once, as in any object). When the autosave timer fires, a request is sent exactly when some
  row is modified or has errors and course info is loaded; otherwise nothing is sent.
  The request holds one \<open>(student_id, column_id, score)\<close> update for every entry of
  every row's grade record, whether or not the cell or its row was modified: the rows
  in table order, and the entries of a row as \<^verbatim>\<open>Object.entries\<close> enumerates them.
\<close>

theorem autosave_sends_every_cell:
  assumes "rows_wf (rows s)"
  shows "autosave_request s =
     (if list_ex (\<lambda>r. isModified r \<or> hasErrors r) (rows s) \<and> courseInfo s \<noteq> None
      then Some (concat (map (\<lambda>r. map (\<lambda>cv. \<lparr>student_id = Some (row_id r),
                                              column_id = fst cv, score = snd cv\<rparr>)
                                     (Object_entries (grades r))) (rows s)))
      else None)"
proof -
  have "hasUnsavedChanges s = list_ex (\<lambda>r. isModified r \<or> hasErrors r) (rows s)"
    by (auto simp: hasUnsavedChanges_def modifiedRows_def list_ex_iff filter_empty_conv)
  then show ?thesis
    using save_payload_all [OF assms]
    by (simp add: autosave_request_def saveGrades_request_def autosave_updates_wf [OF assms])
qed

lemma ex_tied_eval:
  "ex_tied =
     \<lparr>columns = ex_columns,
      rows = [\<lparr>row_id = 1, grades = [(''assignment1'', Some 85)], totalScore = 17,
               averageScore = 85, rank = 1, isModified = False, hasErrors = False\<rparr>,
              \<lparr>row_id = 2, grades = [(''assignment1'', Some 85)], totalScore = 17,
               averageScore = 85, rank = 2, isModified = False, hasErrors = False\<rparr>],
      courseInfo = Some 1, saving = False, error = None, selectedCells = [],
      currentCell = None, validationErrors = [], history = [], historyIndex = -1,
      autoSave_enabled = True, autoSaveTimer = False\<rparr>"
  by (simp add: ex_tied_def load_defs ex_columns_def)

lemma validate_90_any:
  "columns s = ex_columns \<Longrightarrow>
     validateCell s 1 ''assignment1'' (Some 90) = Some (TooManyDecimals 2)"
  by (simp add: validateCell_def ex_columns_def DEFAULT_GRADE_VALIDATION_RULE_def
      toFixed_90 toString_90)

lemma ex_dirty_rows:
  "rows ex_dirty =
     [\<lparr>row_id = 1, grades = [(''assignment1'', Some 90)], totalScore = 18,
       averageScore = 90, rank = 1, isModified = True, hasErrors = True\<rparr>,
      \<lparr>row_id = 2, grades = [(''assignment1'', Some 85)], totalScore = 17,
       averageScore = 85, rank = 2, isModified = False, hasErrors = False\<rparr>]"
proof -
  have c: "columns ex_tied = ex_columns" by (simp add: ex_tied_eval)
  have f: "find (\<lambda>x. row_id x = 1) (rows ex_tied) = Some (rows ex_tied ! 0)"
    by (simp add: ex_tied_eval)
  show ?thesis
    unfolding ex_dirty_def updateCell_fields(2) [OF f] validate_90_any [OF c]
    by (simp add: ex_tied_eval write_cell_def aggregate_defs ex_columns_def)
qed

lemma ex_dirty_wf: "rows_wf (rows ex_dirty)"
  by (simp add: rows_wf_def ex_dirty_rows)

lemma ex_dirty_course: "courseInfo ex_dirty \<noteq> None"
  by (simp add: ex_dirty_def ex_tied_eval)

lemma ex_indexed_loaded:
  "loadGrades 1 ex_indexed_columns [1, 2]
       [[(''10'', Some 85), (''9'', Some 70)], [(''10'', Some 60), (''9'', Some 50)]]
       initial_state =
     \<lparr>columns = ex_indexed_columns,
      rows = [\<lparr>row_id = 1, grades = [(''10'', Some 85), (''9'', Some 70)], totalScore = 155 / 2,
               averageScore = 155 / 2, rank = 1, isModified = False, hasErrors = False\<rparr>,
              \<lparr>row_id = 2, grades = [(''10'', Some 60), (''9'', Some 50)], totalScore = 55,
               averageScore = 55, rank = 2, isModified = False, hasErrors = False\<rparr>],
      courseInfo = Some 1, saving = False, error = None, selectedCells = [],
      currentCell = None, validationErrors = [], history = [], historyIndex = -1,
      autoSave_enabled = True, autoSaveTimer = False\<rparr>"
  by (simp add: load_defs ex_indexed_columns_def)

lemma ex_indexed_rows:
  "rows ex_indexed =
     [\<lparr>row_id = 1, grades = [(''10'', Some 90), (''9'', Some 70)], totalScore = 80,
       averageScore = 80, rank = 1, isModified = True, hasErrors = True\<rparr>,
      \<lparr>row_id = 2, grades = [(''10'', Some 60), (''9'', Some 50)], totalScore = 55,
       averageScore = 55, rank = 2, isModified = False, hasErrors = False\<rparr>]"
proof -
  let ?s = "loadGrades 1 ex_indexed_columns [1, 2]
       [[(''10'', Some 85), (''9'', Some 70)], [(''10'', Some 60), (''9'', Some 50)]]
       initial_state"
  have v: "validateCell ?s 1 ''10'' (Some 90) = Some (TooManyDecimals 2)"
    unfolding validateCell_def ex_indexed_loaded
    by (simp add: ex_indexed_columns_def DEFAULT_GRADE_VALIDATION_RULE_def toFixed_90
        toString_90)
  have f: "find (\<lambda>x. row_id x = 1) (rows ?s) = Some (rows ?s ! 0)"
    by (simp add: ex_indexed_loaded)
  show ?thesis
    unfolding ex_indexed_def updateCell_fields(2) [OF f] v
    unfolding ex_indexed_loaded
    by (simp add: write_cell_def aggregate_defs ex_indexed_columns_def)
qed

lemma ex_indexed_course: "courseInfo ex_indexed = Some 1"
  unfolding ex_indexed_def updateCell_frame ex_indexed_loaded by simp

lemma array_index_10: "array_index ''10'' = Some 10"
  by (simp add: array_index_def is_digit_def digit_val_def)

lemma array_index_9: "array_index ''9'' = Some 9"
  by (simp add: array_index_def is_digit_def digit_val_def)

lemma array_index_assignment1: "array_index ''assignment1'' = None"
  by (simp add: array_index_def is_digit_def)

lemma ex_indexed_wf: "rows_wf (rows ex_indexed)"
  by (simp add: rows_wf_def ex_indexed_rows)

lemma ex_tied_wf: "rows_wf (rows ex_tied)"
  by (simp add: rows_wf_def ex_tied_eval)

theorem autosave_sends_every_cell_witness:
  "map grades (rows ex_indexed) =
     [[(''10'', Some 90), (''9'', Some 70)], [(''10'', Some 60), (''9'', Some 50)]]
   \<and> autosave_request ex_indexed =
       Some [\<lparr>student_id = Some 1, column_id = ''9'', score = Some 70\<rparr>,
             \<lparr>student_id = Some 1, column_id = ''10'', score = Some 90\<rparr>,
             \<lparr>student_id = Some 2, column_id = ''9'', score = Some 50\<rparr>,
             \<lparr>student_id = Some 2, column_id = ''10'', score = Some 60\<rparr>]
   \<and> map isModified (rows ex_tied) = [False, False]
   \<and> map hasErrors (rows ex_tied) = [False, False]
   \<and> autosave_request ex_tied = None"
  using autosave_sends_every_cell [OF ex_indexed_wf] autosave_sends_every_cell [OF ex_tied_wf]
  by (simp add: ex_indexed_rows ex_indexed_course ex_tied_eval Object_entries_def
      index_value_def array_index_10 array_index_9 array_index_assignment1)

text \<open>
  After an edit of the first student's cell the second student's row is neither modified
  nor flagged, and its cell is sent all the same.
\<close>

theorem autosave_sends_clean_cells_counterexample:
  "map isModified (rows ex_dirty) = [True, False]
   \<and> map hasErrors (rows ex_dirty) = [True, False]
   \<and> map row_id (rows ex_dirty) = [1, 2]
   \<and> autosave_request ex_dirty =
       Some [\<lparr>student_id = Some 1, column_id = ''assignment1'', score = Some 90\<rparr>,
             \<lparr>student_id = Some 2, column_id = ''assignment1'', score = Some 85\<rparr>]"
proof -
  have u: "hasUnsavedChanges ex_dirty"
    by (simp add: hasUnsavedChanges_def modifiedRows_def ex_dirty_rows)
  have "autosave_request ex_dirty = Some (save_payload (concat (map row_entries (rows ex_dirty))))"
    using u ex_dirty_course
    by (simp add: autosave_request_def saveGrades_request_def autosave_updates_wf [OF ex_dirty_wf])
  then show ?thesis
    by (simp add: save_payload_all [OF ex_dirty_wf])
      (simp add: ex_dirty_rows Object_entries_def array_index_assignment1)
qed

subsection \<open>Arithmetic on the selection clamps\<close>

lemma find_update_first_same:
  assumes "\<And>x. row_id (f x) = row_id x"
  shows "find (\<lambda>x. row_id x = r) (update_first (\<lambda>x. row_id x = r) f xs)
           = map_option f (find (\<lambda>x. row_id x = r) xs)"
  by (induction xs) (simp_all add: assms)

lemma find_update_first_other:
  assumes "\<And>x. row_id (f x) = row_id x" and "r' \<noteq> r"
  shows "find (\<lambda>x. row_id x = r') (update_first (\<lambda>x. row_id x = r) f xs)
           = find (\<lambda>x. row_id x = r') xs"
  using assms(2) by (induction xs) (simp_all add: assms(1))

lemma grade_or_null_update:
  "grade_or_null (AList.update c v g) c' = (if c' = c then v else grade_or_null g c')"
  by (simp add: grade_or_null_def update_conv')

lemma grades_write_cell [simp]:
  "grades (write_cell cols c v r) = AList.update c v (grades r)"
  by (simp add: write_cell_def Let_def)

lemma cell_at_updateCell:
  "cell_at (rows (updateCell r c v s)) r' c' =
     (if r' = r \<and> c' = c \<and> find (\<lambda>x. row_id x = r) (rows s) \<noteq> None then v
      else cell_at (rows s) r' c')"
proof (cases "find (\<lambda>x. row_id x = r) (rows s)")
  case None
  then show ?thesis by (simp add: updateCell_no_row)
next
  case (Some row)
  show ?thesis
  proof (cases "r' = r")
    case True
    then show ?thesis
      using Some
      by (simp add: updateCell_fields(2) [OF Some] cell_at_def find_update_first_same
          grade_or_null_update)
  next
    case False
    then show ?thesis
      by (simp add: updateCell_fields(2) [OF Some] cell_at_def find_update_first_other)
  qed
qed

lemma batchUpdate_step_wf:
  assumes "fst e = key_of r c" and "0 \<le> r" and "r < 10 ^ 21" and "CHR ''-'' \<notin> set c"
  shows "batchUpdate_step s e = updateCell r c (snd e) s"
  using assms by (simp add: batchUpdate_step_def key_parts_key_of parseInt_show_int)

lemma batchUpdate_step_row_ids [simp]:
  "map row_id (rows (batchUpdate_step s e)) = map row_id (rows s)"
  by (simp add: batchUpdate_step_def split: prod.splits option.splits)

lemma batch_preserves_cell:
  assumes "\<forall>e \<in> set es. entry_wf e \<and> fst e \<noteq> key_of r0 c0"
  shows "cell_at (rows (foldl batchUpdate_step s es)) r0 c0 = cell_at (rows s) r0 c0"
  using assms
proof (induction es arbitrary: s)
  case Nil
  then show ?case by simp
next
  case (Cons e es)
  from Cons.prems obtain r c where e: "fst e = key_of r c" "0 \<le> r" "r < 10 ^ 21"
      "CHR ''-'' \<notin> set c"
    by (auto simp: entry_wf_def)
  from Cons.prems e(1) have "\<not> (r0 = r \<and> c0 = c)" by auto
  then have "cell_at (rows (batchUpdate_step s e)) r0 c0 = cell_at (rows s) r0 c0"
    by (auto simp: batchUpdate_step_wf [OF e] cell_at_updateCell)
  with Cons.IH [of "batchUpdate_step s e"] Cons.prems show ?case by simp
qed

lemma batch_writes_cell:
  assumes "distinct (map fst es)" and "\<forall>e \<in> set es. entry_wf e"
    and "(key_of r0 c0, v) \<in> set es" and "0 \<le> r0" and "r0 < 10 ^ 21"
    and "CHR ''-'' \<notin> set c0" and "r0 \<in> row_id ` set (rows s)"
  shows "cell_at (rows (foldl batchUpdate_step s es)) r0 c0 = v"
  using assms
proof (induction es arbitrary: s)
  case Nil
  then show ?case by simp
next
  case (Cons e es)
  show ?case
  proof (cases "e = (key_of r0 c0, v)")
    case True
    have exists: "find (\<lambda>x. row_id x = r0) (rows s) \<noteq> None"
      using Cons.prems(7) by (auto simp: find_None_iff)
    have "batchUpdate_step s e = updateCell r0 c0 v s"
      using batchUpdate_step_wf [of e r0 c0 s] True Cons.prems(4,5,6) by simp
    then have step: "cell_at (rows (batchUpdate_step s e)) r0 c0 = v"
      using exists by (simp add: cell_at_updateCell)
    have "\<forall>x \<in> set es. entry_wf x \<and> fst x \<noteq> key_of r0 c0"
      using Cons.prems(1,2) True by (auto simp: image_iff)
    from batch_preserves_cell [OF this, of "batchUpdate_step s e"] step
    show ?thesis by simp
  next
    case False
    with Cons.prems(3) have mem: "(key_of r0 c0, v) \<in> set es" by simp
    have ids: "r0 \<in> row_id ` set (rows (batchUpdate_step s e))"
      using Cons.prems(7) batchUpdate_step_row_ids [of s e] by (metis list.set_map)
    from Cons.IH [OF _ _ mem Cons.prems(4,5,6) ids] Cons.prems(1,2)
    show ?thesis by simp
  qed
qed

lemma arith_step_eq:
  "arith_step f s u p = AList.update (cell_key s p) (arith_value f s p) u"
  by (simp add: arith_step_def cell_key_def arith_value_def Let_def)

lemma arith_keys_distinct:
  "distinct (map fst u) \<Longrightarrow> distinct (map fst (foldl (arith_step f s) u ps))"
  by (induction ps arbitrary: u) (simp_all add: arith_step_eq distinct_update)

lemma set_update_subset: "set (AList.update k v al) \<subseteq> insert (k, v) (set al)"
  by (induction al) auto

lemma arith_entries:
  "e \<in> set (foldl (arith_step f s) u ps) \<Longrightarrow>
     e \<in> set u \<or> (\<exists>p \<in> set ps. e = (cell_key s p, arith_value f s p))"
proof (induction ps arbitrary: u)
  case Nil
  then show ?case by simp
next
  case (Cons q ps)
  from Cons.IH [of "arith_step f s u q"] Cons.prems
  have "e \<in> set (arith_step f s u q) \<or> (\<exists>p \<in> set ps. e = (cell_key s p, arith_value f s p))"
    by simp
  moreover have "set (arith_step f s u q) \<subseteq> insert (cell_key s q, arith_value f s q) (set u)"
    unfolding arith_step_eq by (rule set_update_subset)
  ultimately show ?case by auto
qed

lemma arith_lookup:
  assumes "\<forall>q \<in> set ps. cell_key s q = x \<longrightarrow> arith_value f s q = y"
    and "map_of u x = Some y \<or> (\<exists>q \<in> set ps. cell_key s q = x)"
  shows "map_of (foldl (arith_step f s) u ps) x = Some y"
  using assms
proof (induction ps arbitrary: u)
  case Nil
  then show ?case by simp
next
  case (Cons q ps)
  have "map_of (arith_step f s u q) x = Some y \<or> (\<exists>q \<in> set ps. cell_key s q = x)"
  proof (cases "cell_key s q = x")
    case True
    with Cons.prems(1) show ?thesis by (simp add: arith_step_eq update_conv')
  next
    case False
    with Cons.prems(2) show ?thesis by (auto simp: arith_step_eq update_conv')
  qed
  with Cons.IH [of "arith_step f s u q"] Cons.prems(1) show ?case by simp
qed

lemma selected_cells_in_bounds:
  assumes "p \<in> set (selected_cells s)"
  shows "fst p < length (rows s) \<and> snd p < length (columns s)"
proof -
  from assms obtain sel where "p \<in> set (selection_cells s sel)"
    by (auto simp: selected_cells_def)
  then show ?thesis
    by (auto simp: selection_cells_def split: if_splits)
qed

lemma grid_wf_row:
  assumes "grid_wf s" and "i < length (rows s)"
  shows "0 \<le> row_id (rows s ! i)" and "row_id (rows s ! i) < 10 ^ 21"
proof -
  from assms have "0 \<le> row_id (rows s ! i) \<and> row_id (rows s ! i) < 2 ^ 53"
    by (simp add: grid_wf_def list_all_length)
  then show "0 \<le> row_id (rows s ! i)" and "row_id (rows s ! i) < 10 ^ 21" by simp_all
qed

lemma cell_key_inject:
  assumes wf: "grid_wf s"
    and p: "fst p < length (rows s)" "snd p < length (columns s)"
    and q: "fst q < length (rows s)" "snd q < length (columns s)"
    and eq: "cell_key s p = cell_key s q"
  shows "p = q"
proof -
  have nn: "0 \<le> row_id (rows s ! fst p)" "0 \<le> row_id (rows s ! fst q)"
    and lt: "row_id (rows s ! fst p) < 10 ^ 21" "row_id (rows s ! fst q) < 10 ^ 21"
    using grid_wf_row [OF wf p(1)] grid_wf_row [OF wf q(1)] by simp_all
  have nd: "CHR ''-'' \<notin> set (col_id (columns s ! snd p))"
      "CHR ''-'' \<notin> set (col_id (columns s ! snd q))"
    using wf p(2) q(2) by (simp_all add: grid_wf_def list_all_length)
  from key_of_inject [OF nn(1) lt(1) nd(1) nn(2) lt(2) nd(2)] eq
  have "row_id (rows s ! fst p) = row_id (rows s ! fst q)"
      "col_id (columns s ! snd p) = col_id (columns s ! snd q)"
    by (simp_all add: cell_key_def)
  moreover have d: "distinct (map row_id (rows s))" "distinct (map col_id (columns s))"
    using wf by (simp_all add: grid_wf_def)
  ultimately have "fst p = fst q" "snd p = snd q"
    using p q nth_eq_iff_index_eq [OF d(1), of "fst p" "fst q"]
      nth_eq_iff_index_eq [OF d(2), of "snd p" "snd q"]
    by simp_all
  then show ?thesis by (simp add: prod_eq_iff)
qed

lemma find_distinct_nth:
  assumes "distinct (map g xs)" and "i < length xs"
  shows "find (\<lambda>x. g x = g (xs ! i)) xs = Some (xs ! i)"
  using assms
proof (induction xs arbitrary: i)
  case Nil
  then show ?case by simp
next
  case (Cons x xs)
  show ?case
  proof (cases i)
    case 0
    then show ?thesis by simp
  next
    case (Suc k)
    with Cons.prems have "g x \<noteq> g (xs ! k)" by (auto simp: image_iff)
    with Cons.IH [of k] Cons.prems Suc show ?thesis by simp
  qed
qed

lemma batch_steps_row_ids:
  "map row_id (rows (foldl batchUpdate_step s es)) = map row_id (rows s)"
  by (induction es arbitrary: s) simp_all

lemma batchUpdate_row_ids:
  "map row_id (rows (batchUpdate u s)) = map row_id (rows s)"
  by (simp add: batchUpdate_def batch_steps_row_ids)

lemma nth_map_eq:
  assumes "map g xs = map g ys" and "i < length ys"
  shows "g (xs ! i) = g (ys ! i)"
proof -
  have len: "length xs = length ys" using assms(1) by (rule map_eq_imp_length_eq)
  have "map g xs ! i = map g ys ! i" using assms(1) by simp
  then show ?thesis using assms(2) len by simp
qed

lemma arith_batch_cell:
  assumes wf: "grid_wf s" and sel: "(i, j) \<in> set (selected_cells s)"
  shows "grade_or_null (grades (rows (batchUpdate (arith_updates f s) s) ! i))
           (col_id (columns s ! j))
         = Some (clamp_score (columns s ! j)
             (f (grade_or_zero (grades (rows s ! i)) (col_id (columns s ! j)))))"
proof -
  let ?U = "arith_updates f s"
  let ?s' = "batchUpdate ?U s"
  let ?r = "row_id (rows s ! i)" and ?c = "col_id (columns s ! j)"
  from selected_cells_in_bounds [OF sel] have ib: "i < length (rows s)" "j < length (columns s)"
    by simp_all
  have nn: "0 \<le> ?r" and lt: "?r < 10 ^ 21"
    using grid_wf_row [OF wf ib(1)] by simp_all
  have nd: "CHR ''-'' \<notin> set ?c" using wf ib(2) by (simp add: grid_wf_def list_all_length)
  have key: "cell_key s (i, j) = key_of ?r ?c" by (simp add: cell_key_def)
  have dist: "distinct (map fst ?U)"
    unfolding arith_updates_def by (rule arith_keys_distinct) simp
  have wfU: "\<forall>e \<in> set ?U. entry_wf e"
  proof
    fix e assume "e \<in> set ?U"
    then obtain p where p: "p \<in> set (selected_cells s)" "e = (cell_key s p, arith_value f s p)"
      using arith_entries [of e f s "[]" "selected_cells s"] by (auto simp: arith_updates_def)
    from selected_cells_in_bounds [OF p(1)] have pb: "fst p < length (rows s)"
        "snd p < length (columns s)"
      by simp_all
    from pb(2) wf have "CHR ''-'' \<notin> set (col_id (columns s ! snd p))"
      by (simp add: grid_wf_def list_all_length)
    with grid_wf_row [OF wf pb(1)]
    have "0 \<le> row_id (rows s ! fst p)" "row_id (rows s ! fst p) < 10 ^ 21"
        "CHR ''-'' \<notin> set (col_id (columns s ! snd p))"
      by simp_all
    then show "entry_wf e" unfolding entry_wf_def p(2) cell_key_def by auto
  qed
  have same: "\<forall>q \<in> set (selected_cells s). cell_key s q = cell_key s (i, j) \<longrightarrow>
      arith_value f s q = arith_value f s (i, j)"
  proof (intro ballI impI)
    fix q assume q: "q \<in> set (selected_cells s)" "cell_key s q = cell_key s (i, j)"
    from selected_cells_in_bounds [OF q(1)] ib q(2)
    have "q = (i, j)" by (intro cell_key_inject [OF wf]) simp_all
    then show "arith_value f s q = arith_value f s (i, j)" by simp
  qed
  have ex: "\<exists>q \<in> set (selected_cells s). cell_key s q = cell_key s (i, j)"
    using sel by blast
  have "map_of ?U (cell_key s (i, j)) = Some (arith_value f s (i, j))"
    unfolding arith_updates_def by (rule arith_lookup [OF same disjI2 [OF ex]])
  then have mem: "(key_of ?r ?c, arith_value f s (i, j)) \<in> set ?U"
    unfolding key [symmetric] by (rule map_of_SomeD)
  have rin: "?r \<in> row_id ` set (rows s)" using ib(1) by simp
  have plain: "Object_entries ?U = ?U"
  proof (rule Object_entries_dash, rule ballI)
    fix e assume "e \<in> set ?U"
    with wfU have "entry_wf e" ..
    then show "CHR ''-'' \<in> set (fst e)" by (auto simp: entry_wf_def key_of_dash)
  qed
  from batch_writes_cell [OF dist wfU mem nn lt nd rin]
  have cell: "cell_at (rows ?s') ?r ?c = arith_value f s (i, j)"
    by (simp add: batchUpdate_def plain)
  have ids: "map row_id (rows ?s') = map row_id (rows s)" by (rule batchUpdate_row_ids)
  have len: "length (rows ?s') = length (rows s)" using ids by (rule map_eq_imp_length_eq)
  have id_i: "row_id (rows ?s' ! i) = ?r" using ids ib(1) by (rule nth_map_eq)
  have "distinct (map row_id (rows ?s'))" using wf unfolding ids by (simp add: grid_wf_def)
  then have "find (\<lambda>x. row_id x = row_id (rows ?s' ! i)) (rows ?s') = Some (rows ?s' ! i)"
    using ib(1) unfolding len [symmetric] by (rule find_distinct_nth)
  then have "cell_at (rows ?s') ?r ?c = grade_or_null (grades (rows ?s' ! i)) ?c"
    unfolding id_i by (simp add: cell_at_def)
  with cell show ?thesis by (simp add: arith_value_def)
qed

lemma grade_or_null_Some:
  "grade_or_null g c = Some x \<Longrightarrow> map_of g c = Some (Some x)"
  by (simp add: grade_or_null_def split: option.splits)

lemma grade_or_zero_cases:
  "grade_or_zero g c = (case map_of g c of Some (Some v) \<Rightarrow> v | _ \<Rightarrow> 0)"
  by (simp add: grade_or_zero_def grade_or_null_def split: option.splits)

text \<open>
  What the two operations do guarantee. On a grid whose row ids are pairwise distinct
  non-negative integers below \<open>2^53\<close> and whose column ids are pairwise distinct and
  without a hyphen, for every cell \<open>(i, j)\<close> of the current selection
  \<^verbatim>\<open>addPoints\<close> and \<^verbatim>\<open>multiplyBy\<close> leave in the cell the number obtained by
  reading its value (absent or null as 0), adding the points or multiplying by the
  factor, and clamping with \<^verbatim>\<open>Math.min(Math.max(0, x), column.maxScore)\<close>; the
  result is a number, never null.
\<close>

theorem arithmetic_on_plain_ids:
  assumes "grid_wf s" and "(i, j) \<in> set (selected_cells s)"
  shows "map_of (grades (rows (addPoints p s) ! i)) (col_id (columns s ! j))
           = Some (Some (min (max 0
               ((case map_of (grades (rows s ! i)) (col_id (columns s ! j)) of
                   Some (Some v) \<Rightarrow> v | _ \<Rightarrow> 0) + p))
               (maxScore (columns s ! j))))
       \<and> map_of (grades (rows (multiplyBy k s) ! i)) (col_id (columns s ! j))
           = Some (Some (min (max 0
               ((case map_of (grades (rows s ! i)) (col_id (columns s ! j)) of
                   Some (Some v) \<Rightarrow> v | _ \<Rightarrow> 0) * k))
               (maxScore (columns s ! j))))"
proof -
  have "grade_or_null (grades (rows (addPoints p s) ! i)) (col_id (columns s ! j))
      = Some (clamp_score (columns s ! j)
          (grade_or_zero (grades (rows s ! i)) (col_id (columns s ! j)) + p))"
    using arith_batch_cell [OF assms, of "\<lambda>v. v + p"] by (simp add: addPoints_def)
  from grade_or_null_Some [OF this] have add: "map_of (grades (rows (addPoints p s) ! i))
      (col_id (columns s ! j)) = Some (Some (clamp_score (columns s ! j)
          (grade_or_zero (grades (rows s ! i)) (col_id (columns s ! j)) + p)))" .
  have "grade_or_null (grades (rows (multiplyBy k s) ! i)) (col_id (columns s ! j))
      = Some (clamp_score (columns s ! j)
          (grade_or_zero (grades (rows s ! i)) (col_id (columns s ! j)) * k))"
    using arith_batch_cell [OF assms, of "\<lambda>v. v * k"] by (simp add: multiplyBy_def)
  from grade_or_null_Some [OF this] have mul: "map_of (grades (rows (multiplyBy k s) ! i))
      (col_id (columns s ! j)) = Some (Some (clamp_score (columns s ! j)
          (grade_or_zero (grades (rows s ! i)) (col_id (columns s ! j)) * k)))" .
  show ?thesis
    unfolding add mul clamp_score_def grade_or_zero_cases by simp
qed

lemma ex_95_eval:
  "ex_95 =
     \<lparr>columns = ex_columns,
      rows = [\<lparr>row_id = 1, grades = [(''assignment1'', Some 95)], totalScore = 19,
               averageScore = 95, rank = 1, isModified = False, hasErrors = False\<rparr>],
      courseInfo = Some 1, saving = False, error = None,
      selectedCells = [\<lparr>startRow = 0, endRow = 0, startColumn = ''assignment1'',
                         endColumn = ''assignment1'', sel_type = Cell\<rparr>],
      currentCell = Some (1, ''assignment1''), validationErrors = [], history = [],
      historyIndex = -1, autoSave_enabled = True, autoSaveTimer = False\<rparr>"
  by (simp add: ex_95_def selectCell_def load_defs ex_columns_def)

lemma ex_95_selected: "selected_cells ex_95 = [(0, 0)]"
  by (simp add: selected_cells_def selection_cells_def ex_95_eval ex_columns_def upto.simps)

lemma grid_wf_ex_95: "grid_wf ex_95"
  by (simp add: grid_wf_def ex_95_eval ex_columns_def)

text \<open>The example of the specification: 95 plus 10 gives 100, and times 0 gives the number 0.\<close>

theorem arithmetic_on_plain_ids_example:
  "map_of (grades (rows (addPoints 10 ex_95) ! 0)) ''assignment1'' = Some (Some 100)
   \<and> map_of (grades (rows (multiplyBy 0 ex_95) ! 0)) ''assignment1'' = Some (Some 0)"
proof -
  have sel: "(0, 0) \<in> set (selected_cells ex_95)" by (simp add: ex_95_selected)
  from arithmetic_on_plain_ids [OF grid_wf_ex_95 sel, of 10 0]
  show ?thesis
    by (simp add: ex_95_eval ex_columns_def)
qed

lemma ex_hyphen_eval:
  "ex_hyphen =
     \<lparr>columns = ex_hyphen_columns,
      rows = [\<lparr>row_id = 1, grades = [(''final-exam'', Some 95)], totalScore = 19,
               averageScore = 95, rank = 1, isModified = False, hasErrors = False\<rparr>],
      courseInfo = Some 1, saving = False, error = None,
      selectedCells = [\<lparr>startRow = 0, endRow = 0, startColumn = ''final-exam'',
                         endColumn = ''final-exam'', sel_type = Cell\<rparr>],
      currentCell = Some (1, ''final-exam''), validationErrors = [], history = [],
      historyIndex = -1, autoSave_enabled = True, autoSaveTimer = False\<rparr>"
  by (simp add: ex_hyphen_def selectCell_def load_defs ex_hyphen_columns_def)

lemma ex_hyphen_selected: "selected_cells ex_hyphen = [(0, 0)]"
  by (simp add: selected_cells_def selection_cells_def ex_hyphen_eval ex_hyphen_columns_def
      upto.simps)

lemma ex_hyphen_updates:
  "arith_updates f ex_hyphen = [(''1-final-exam'', Some (min (max 0 (f 95)) 100))]"
  by (simp add: arith_updates_def ex_hyphen_selected arith_step_def)
    (simp add: ex_hyphen_eval ex_hyphen_columns_def clamp_score_def aggregate_defs
      key_of_def show_int_def show_nat_def digit_char_def digits10.simps)

lemma key_parts_hyphen: "key_parts ''1-final-exam'' = (''1'', ''final'')"
  by (simp add: key_parts_def)

lemma ex_hyphen_batch:
  "batchUpdate [(''1-final-exam'', Some v)] ex_hyphen = updateCell 1 ''final'' (Some v) ex_hyphen"
  by (simp add: batchUpdate_def Object_entries_dash batchUpdate_step_def key_parts_hyphen
      parseInt_1)

lemma ex_hyphen_write:
  "rows (updateCell 1 ''final'' (Some v) ex_hyphen) =
     [\<lparr>row_id = 1, grades = [(''final-exam'', Some 95), (''final'', Some v)],
       totalScore = 19, averageScore = 95, rank = 1, isModified = True, hasErrors = True\<rparr>]"
   "validationErrors (updateCell 1 ''final'' (Some v) ex_hyphen) =
     [\<lparr>rowId = 1, columnId = ''final'', message = ColumnMissing\<rparr>]"
proof -
  have m: "validateCell ex_hyphen 1 ''final'' (Some v) = Some ColumnMissing"
    by (simp add: validateCell_def ex_hyphen_eval ex_hyphen_columns_def)
  have f: "find (\<lambda>x. row_id x = 1) (rows ex_hyphen) = Some (rows ex_hyphen ! 0)"
    by (simp add: ex_hyphen_eval)
  show "rows (updateCell 1 ''final'' (Some v) ex_hyphen) =
     [\<lparr>row_id = 1, grades = [(''final-exam'', Some 95), (''final'', Some v)],
       totalScore = 19, averageScore = 95, rank = 1, isModified = True, hasErrors = True\<rparr>]"
    unfolding updateCell_fields(2) [OF f] m
    by (simp add: ex_hyphen_eval write_cell_def aggregate_defs ex_hyphen_columns_def)
  show "validationErrors (updateCell 1 ''final'' (Some v) ex_hyphen) =
     [\<lparr>rowId = 1, columnId = ''final'', message = ColumnMissing\<rparr>]"
    unfolding updateCell_fields(1) [OF f] m by (simp add: ex_hyphen_eval)
qed

text \<open>
  C4. The claim is for every cell of the selection. The updates travel under the key
  \<^verbatim>\<open>`${rowId}-${columnId}`\<close> and are decoded with \<^verbatim>\<open>key.split('-')\<close>, so a column
  id with a hyphen is cut short. With one column \<open>final-exam\<close> (maximum 100), its cell
  at 95 and selected, \<^verbatim>\<open>addPoints(10)\<close> leaves the selected cell at 95, writes 100
  under a column \<open>final\<close> that does not exist and records the validation error
  ``column missing''; \<^verbatim>\<open>multiplyBy(0)\<close> leaves the selected cell at 95 likewise.
\<close>

theorem arithmetic_misses_hyphenated_column:
  "map col_id (columns ex_hyphen) = [''final-exam'']
   \<and> map maxScore (columns ex_hyphen) = [100]
   \<and> map grades (rows ex_hyphen) = [[(''final-exam'', Some 95)]]
   \<and> selected_cells ex_hyphen = [(0, 0)]
   \<and> map grades (rows (addPoints 10 ex_hyphen)) =
       [[(''final-exam'', Some 95), (''final'', Some 100)]]
   \<and> validationErrors (addPoints 10 ex_hyphen) =
       [\<lparr>rowId = 1, columnId = ''final'', message = ColumnMissing\<rparr>]
   \<and> map grades (rows (multiplyBy 0 ex_hyphen)) =
       [[(''final-exam'', Some 95), (''final'', Some 0)]]"
  by (simp add: addPoints_def multiplyBy_def ex_hyphen_updates ex_hyphen_batch
      ex_hyphen_write ex_hyphen_selected)
    (simp add: ex_hyphen_eval ex_hyphen_columns_def)

subsection \<open>Undo does not revert the last edit\<close>

lemma toFixed_95: "toFixed 2 95 = ''95.00''"
  by (simp add: toFixed_def Let_def digit_char_def digits10.simps)

lemma toString_95: "toString 95 = ''95''"
  by (simp add: toString_def toString_abs_def digit_char_def digits10.simps)

lemma validate_95_any:
  "columns s = ex_columns \<Longrightarrow>
     validateCell s 2 ''assignment1'' (Some 95) = Some (TooManyDecimals 2)"
  by (simp add: validateCell_def ex_columns_def DEFAULT_GRADE_VALIDATION_RULE_def
      toFixed_95 toString_95)

lemma key_2_assignment1: "key_of 2 ''assignment1'' = ''2-assignment1''"
  by (simp add: key_of_def show_int_def show_nat_def digit_char_def digits10.simps)

lemma ex_dirty_eval:
  "ex_dirty =
     \<lparr>columns = ex_columns,
      rows = [\<lparr>row_id = 1, grades = [(''assignment1'', Some 90)], totalScore = 18,
               averageScore = 90, rank = 1, isModified = True, hasErrors = True\<rparr>,
              \<lparr>row_id = 2, grades = [(''assignment1'', Some 85)], totalScore = 17,
               averageScore = 85, rank = 2, isModified = False, hasErrors = False\<rparr>],
      courseInfo = Some 1, saving = False, error = None, selectedCells = [],
      currentCell = None,
      validationErrors = [\<lparr>rowId = 1, columnId = ''assignment1'', message = TooManyDecimals 2\<rparr>],
      history = [\<lparr>operation = \<lparr>op_type = OpSet, op_value = Some 90,
                   targetRange = \<lparr>startRow = 0, endRow = 0, startColumn = ''assignment1'',
                      endColumn = ''assignment1'', sel_type = Cell\<rparr>\<rparr>,
                  previousValues = [(''1-assignment1'', Some 85)],
                  newValues = [(''1-assignment1'', Some 90)]\<rparr>],
      historyIndex = 0, autoSave_enabled = True, autoSaveTimer = True\<rparr>"
proof -
  have c: "columns ex_tied = ex_columns" by (simp add: ex_tied_eval)
  show ?thesis
    unfolding ex_dirty_def updateCell_def validate_90_any [OF c]
    by (simp add: ex_tied_eval key_1_assignment1 addToHistory_def slice0_def
        scheduleAutoSave_def write_cell_def aggregate_defs ex_columns_def)
qed

lemma ex_two_edits_eval:
  "ex_two_edits =
     \<lparr>columns = ex_columns,
      rows = [\<lparr>row_id = 1, grades = [(''assignment1'', Some 90)], totalScore = 18,
               averageScore = 90, rank = 1, isModified = True, hasErrors = True\<rparr>,
              \<lparr>row_id = 2, grades = [(''assignment1'', Some 95)], totalScore = 19,
               averageScore = 95, rank = 2, isModified = True, hasErrors = True\<rparr>],
      courseInfo = Some 1, saving = False, error = None, selectedCells = [],
      currentCell = None,
      validationErrors = [\<lparr>rowId = 1, columnId = ''assignment1'', message = TooManyDecimals 2\<rparr>,
                          \<lparr>rowId = 2, columnId = ''assignment1'', message = TooManyDecimals 2\<rparr>],
      history = [\<lparr>operation = \<lparr>op_type = OpSet, op_value = Some 90,
                   targetRange = \<lparr>startRow = 0, endRow = 0, startColumn = ''assignment1'',
                      endColumn = ''assignment1'', sel_type = Cell\<rparr>\<rparr>,
                  previousValues = [(''1-assignment1'', Some 85)],
                  newValues = [(''1-assignment1'', Some 90)]\<rparr>,
                 \<lparr>operation = \<lparr>op_type = OpSet, op_value = Some 95,
                   targetRange = \<lparr>startRow = 1, endRow = 1, startColumn = ''assignment1'',
                      endColumn = ''assignment1'', sel_type = Cell\<rparr>\<rparr>,
                  previousValues = [(''2-assignment1'', Some 85)],
                  newValues = [(''2-assignment1'', Some 95)]\<rparr>],
      historyIndex = 1, autoSave_enabled = True, autoSaveTimer = True\<rparr>"
proof -
  have c: "columns ex_dirty = ex_columns" by (simp add: ex_dirty_eval)
  show ?thesis
    unfolding ex_two_edits_def updateCell_def validate_95_any [OF c]
    by (simp add: ex_dirty_eval key_2_assignment1 addToHistory_def slice0_def
        scheduleAutoSave_def write_cell_def aggregate_defs ex_columns_def)
qed

lemma undo_two_edits:
  "undo ex_two_edits =
     Inr (ex_two_edits
       \<lparr>rows := [\<lparr>row_id = 1, grades = [(''assignment1'', Some 85)], totalScore = 17,
               averageScore = 85, rank = 2, isModified = True, hasErrors = True\<rparr>,
              \<lparr>row_id = 2, grades = [(''assignment1'', Some 95)], totalScore = 19,
               averageScore = 95, rank = 1, isModified = True, hasErrors = True\<rparr>],
        historyIndex := 0\<rparr>)"
  by (simp add: undo_def canUndo_def ex_two_edits_eval replay_def restore_value_def
      Object_entries_dash key_parts_1 parseInt_1 write_cell_def aggregate_defs ex_columns_def
      calculateRanks_def sortedRows_def assign_rank_def)

text \<open>
  C1. On the test fixture, after the single edit \<^verbatim>\<open>updateCell(1, 'assignment1', 90)\<close>
  the cursor is 0, so \<^verbatim>\<open>canUndo\<close> (\<open>historyIndex > 0\<close>) is false and \<^verbatim>\<open>undo\<close>
  returns the state unchanged: the cell keeps 90 instead of going back to 85. After two
  edits of two different cells (student 1 to 90, student 2 to 95) the first undo replays
  the previous value of the first edit, the second undo does nothing, and student 2
  keeps 95: two undos do not restore the values before the two edits.
\<close>

theorem undo_first_edit_is_noop:
  "canUndo (updateCell 1 ''assignment1'' (Some 90) ex_loaded) = False
   \<and> undo (updateCell 1 ''assignment1'' (Some 90) ex_loaded)
       = Inr (updateCell 1 ''assignment1'' (Some 90) ex_loaded)
   \<and> map grades (rows ex_loaded) = [[(''assignment1'', Some 85)]]
   \<and> map grades (rows (updateCell 1 ''assignment1'' (Some 90) ex_loaded))
       = [[(''assignment1'', Some 90)]]
   \<and> map grades (rows ex_tied) = [[(''assignment1'', Some 85)], [(''assignment1'', Some 85)]]
   \<and> map grades (rows ex_two_edits)
       = [[(''assignment1'', Some 90)], [(''assignment1'', Some 95)]]
   \<and> (\<exists>s1. undo ex_two_edits = Inr s1 \<and> undo s1 = Inr s1
         \<and> map grades (rows s1) = [[(''assignment1'', Some 85)], [(''assignment1'', Some 95)]])"
proof -
  let ?s1 = "updateCell 1 ''assignment1'' (Some 90) ex_loaded"
  have one: "canUndo ?s1 = False" "undo ?s1 = Inr ?s1"
      "map grades (rows ?s1) = [[(''assignment1'', Some 90)]]"
    by (simp_all add: ex_edit_90 undo_def canUndo_def)
  have before: "map grades (rows ex_loaded) = [[(''assignment1'', Some 85)]]"
      "map grades (rows ex_tied) = [[(''assignment1'', Some 85)], [(''assignment1'', Some 85)]]"
      "map grades (rows ex_two_edits)
         = [[(''assignment1'', Some 90)], [(''assignment1'', Some 95)]]"
    by (simp_all add: ex_loaded_eval ex_tied_eval ex_two_edits_eval)
  obtain s1 where s1: "undo ex_two_edits = Inr s1" "historyIndex s1 = 0"
      "map grades (rows s1) = [[(''assignment1'', Some 85)], [(''assignment1'', Some 95)]]"
    using undo_two_edits by simp
  from s1(2) have again: "undo s1 = Inr s1" by (simp add: undo_def canUndo_def)
  have two: "\<exists>s1. undo ex_two_edits = Inr s1 \<and> undo s1 = Inr s1
      \<and> map grades (rows s1) = [[(''assignment1'', Some 85)], [(''assignment1'', Some 95)]]"
    by (intro exI [of _ s1] conjI) (rule s1(1) again s1(3))+
  show ?thesis
    by (intro conjI) (rule one before two)+
qed

end
